theory Spec2Isabelle
  imports Main "HOL-Library.Word"
begin

unbundle bit_operations_syntax

section \<open>Machine types and data model of zyncoder.c\<close>

text \<open>
  The library is single-file C (\<^verbatim>\<open>src/zyncoder.c\<close>). Its global tables and rings become
  one \<open>state\<close> record that every operation takes and returns. The direct-GPIO build is
  the one embedded here (\<^verbatim>\<open>MCP23017_ENCODERS\<close> and \<^verbatim>\<open>USE_ALSASEQ_MIDI\<close> undefined), so MIDI
  goes through the JACK ring buffers.

  Inputs of the environment are explicit parameters: the monotonic clock reading
  \<open>tsus\<close> (microseconds, \<^verbatim>\<open>unsigned long\<close>), the pin levels returned by
  \<^verbatim>\<open>digitalRead\<close>, and the JACK port buffers of one process period.
\<close>

type_synonym u8 = "8 word"
type_synonym u32 = "32 word"
type_synonym u64 = "64 word"

text \<open>
  Modelled from the spec: the header \<^verbatim>\<open>zyncoder.h\<close> (struct declarations, table bounds,
  \<^verbatim>\<open>ZYNCODER_TICKS_PER_RETENT\<close>) is not among the sources. Field widths follow the spec's
  data model (32-bit \<open>subvalue\<close>, \<open>value\<close> and held duration, 64-bit timestamps) and
  the C types of the parameters and locals that are assigned to the fields. The table
  bounds are not given anywhere, so they are parameters (\<open>limits\<close>).
\<close>

record limits =
  MAX_NUM_ZYNSWITCHES :: nat
  MAX_NUM_ZYNCODERS :: nat
  ZYNMIDI_BUFFER_SIZE :: nat

text \<open>
  Modelled from the spec: \<^verbatim>\<open>ZYNCODER_TICKS_PER_RETENT\<close> is 4 (``TICKS_PER_DETENT, 4 in the
  reference behavior''); the source agrees, shifting exactly four \<^verbatim>\<open>dtus\<close> slots.
\<close>

definition ZYNCODER_TICKS_PER_RETENT :: u32 where
  "ZYNCODER_TICKS_PER_RETENT = 4"

record zynswitch_st =
  zs_enabled :: bool
  zs_pin :: nat
  zs_tsus :: u64
  zs_dtus :: u32
  zs_status :: u32

record zyncoder_st =
  zc_enabled :: bool
  zc_pin_a :: nat
  zc_pin_b :: nat
  zc_midi_chan :: u8
  zc_midi_ctrl :: u8
  zc_osc_path :: string
  zc_max_value :: u32
  zc_step :: u32
  zc_subvalue :: u32
  zc_value :: u32
  zc_last_encoded :: u32
  zc_tsus :: u64
  zc_dtus :: "u32 \<times> u32 \<times> u32 \<times> u32"

text \<open>
  JACK's ring buffer is a library object, not code of this repository. It is modelled by
  its interface: a bounded byte queue; a write stores as many bytes as fit and returns
  their number, \<^verbatim>\<open>write_space\<close> is the number of free bytes.
\<close>

record jack_ringbuffer =
  rb_data :: "u8 list"
  rb_capacity :: nat

definition jack_ringbuffer_write_space :: "jack_ringbuffer \<Rightarrow> nat" where
  "jack_ringbuffer_write_space rb = rb_capacity rb - length (rb_data rb)"

definition jack_ringbuffer_read_space :: "jack_ringbuffer \<Rightarrow> nat" where
  "jack_ringbuffer_read_space rb = length (rb_data rb)"

definition jack_ringbuffer_write ::
  "jack_ringbuffer \<Rightarrow> u8 list \<Rightarrow> nat \<Rightarrow> jack_ringbuffer \<times> nat" where
  "jack_ringbuffer_write rb src cnt =
     (let n = min cnt (jack_ringbuffer_write_space rb)
      in (rb\<lparr>rb_data := rb_data rb @ take n src\<rparr>, n))"

definition jack_ringbuffer_read ::
  "jack_ringbuffer \<Rightarrow> nat \<Rightarrow> jack_ringbuffer \<times> u8 list \<times> nat" where
  "jack_ringbuffer_read rb cnt =
     (let n = min cnt (jack_ringbuffer_read_space rb)
      in (rb\<lparr>rb_data := drop n (rb_data rb)\<rparr>, take n (rb_data rb), n))"

text \<open>
  What the library does to the outside, in order: OSC messages handed to \<^verbatim>\<open>lo_send\<close>,
  lines printed to stderr or stdout (the format string stands for the line), and one
  entry for every call of the dispatcher \<^verbatim>\<open>send_zyncoder\<close>, recorded on entry, so that
  ``the dispatcher was invoked'' can be stated.
\<close>

datatype osc_arg = Osc_T | Osc_F | Osc_i u32

datatype effect =
    Call_send_zyncoder nat
  | Lo_send string osc_arg
  | Stderr string
  | Stdout string

record state =
  zynswitches :: "nat \<Rightarrow> zynswitch_st"
  zyncoders :: "nat \<Rightarrow> zyncoder_st"
  zynmidi_buffer :: "nat \<Rightarrow> u32"
  zynmidi_buffer_read :: nat
  zynmidi_buffer_write :: nat
  osc_lo_addr :: "string option"
  jack_ring_output_buffer :: jack_ringbuffer
  jack_ring_input_buffer :: jack_ringbuffer
  jack_midi_output_port :: "(nat \<times> u8 list) list"
  effects :: "effect list"

text \<open>
  The tables are C arrays addressed as \<^verbatim>\<open>zyncoders + i\<close>. They are functions of the slot
  number here: slots below the bound are the table, a slot at or above it is the memory
  behind the table, which only an unchecked index can reach.
\<close>

definition emit :: "effect \<Rightarrow> state \<Rightarrow> state" where
  "emit e s = s\<lparr>effects := effects s @ [e]\<rparr>"

section \<open>Transport bridge: outbound queue\<close>

definition jack_write_midi_event :: "u8 \<times> u8 \<times> u8 \<Rightarrow> state \<Rightarrow> int \<times> state" where
  "jack_write_midi_event ctrl_event s =
     (case ctrl_event of (b0, b1, b2) \<Rightarrow>
        if 3 \<le> jack_ringbuffer_write_space (jack_ring_output_buffer s) then
          (case jack_ringbuffer_write (jack_ring_output_buffer s) [b0, b1, b2] 3 of
             (rb, n) \<Rightarrow>
               if n \<noteq> 3 then
                 (- 1, emit (Stderr ''Error writing jack ring output buffer: INCOMPLETE'')
                         (s\<lparr>jack_ring_output_buffer := rb\<rparr>))
               else (0, s\<lparr>jack_ring_output_buffer := rb\<rparr>))
        else (- 1, emit (Stderr ''Error writing jack ring output buffer: FULL'') s))"

definition zynmidi_set_control :: "u8 \<Rightarrow> u8 \<Rightarrow> u8 \<Rightarrow> state \<Rightarrow> int \<times> state" where
  "zynmidi_set_control chan ctrl val s = jack_write_midi_event (0xB0 + chan, ctrl, val) s"

definition zynmidi_set_program :: "u8 \<Rightarrow> u8 \<Rightarrow> state \<Rightarrow> int \<times> state" where
  "zynmidi_set_program chan prgm s = jack_write_midi_event (0xC0 + chan, prgm, 0) s"

section \<open>Returned-event ring\<close>

definition write_zynmidi :: "limits \<Rightarrow> u32 \<Rightarrow> state \<Rightarrow> int \<times> state" where
  "write_zynmidi L ev s =
     (let nptr = zynmidi_buffer_write s + 1;
          nptr = (if ZYNMIDI_BUFFER_SIZE L \<le> nptr then 0 else nptr)
      in if nptr = zynmidi_buffer_read s then (0, s)
         else (1, s\<lparr>zynmidi_buffer := (zynmidi_buffer s)(zynmidi_buffer_write s := ev),
                     zynmidi_buffer_write := nptr\<rparr>))"

definition read_zynmidi :: "limits \<Rightarrow> state \<Rightarrow> u32 \<times> state" where
  "read_zynmidi L s =
     (if zynmidi_buffer_read s = zynmidi_buffer_write s then (0, s)
      else (let ev = zynmidi_buffer s (zynmidi_buffer_read s);
                r = zynmidi_buffer_read s + 1
            in (ev, s\<lparr>zynmidi_buffer_read := (if ZYNMIDI_BUFFER_SIZE L \<le> r then 0 else r)\<rparr>)))"

section \<open>Switches\<close>

definition put_zynswitch :: "nat \<Rightarrow> zynswitch_st \<Rightarrow> state \<Rightarrow> state" where
  "put_zynswitch i zynswitch s = s\<lparr>zynswitches := (zynswitches s)(i := zynswitch)\<rparr>"

text \<open>
  \<^verbatim>\<open>int dtus=tsus-zynswitch->tsus\<close>: the 64-bit difference cut to 32 bits; the test
  \<^verbatim>\<open>dtus<1000\<close> reads it as a signed number.
\<close>

definition switch_dtus :: "u64 \<Rightarrow> u64 \<Rightarrow> u32" where
  "switch_dtus tsus prev = ucast (tsus - prev)"

text \<open>
  The part of \<^verbatim>\<open>update_zynswitch\<close> and of the body of the polling loop that follows the
  sampling of the pin; both functions contain the same lines. The flag is \<open>True\<close> where
  the C code executes \<^verbatim>\<open>return\<close> at the debounce test, which leaves the enclosing
  function.
\<close>

definition commit_zynswitch :: "u64 \<Rightarrow> nat \<Rightarrow> u32 \<Rightarrow> state \<Rightarrow> bool \<times> state" where
  "commit_zynswitch tsus i status s =
     (let zynswitch = (zynswitches s i)\<lparr>zs_status := status\<rparr>
      in if zs_status zynswitch = 1 then
           (let dtus = switch_dtus tsus (zs_tsus zynswitch)
            in if sint dtus < 1000 then (True, put_zynswitch i zynswitch s)
               else if 0 < zs_tsus zynswitch
                 then (False, put_zynswitch i (zynswitch\<lparr>zs_dtus := dtus\<rparr>) s)
                 else (False, put_zynswitch i zynswitch s))
         else (False, put_zynswitch i (zynswitch\<lparr>zs_tsus := tsus\<rparr>) s))"

definition update_zynswitch ::
  "limits \<Rightarrow> (nat \<Rightarrow> u32) \<Rightarrow> u64 \<Rightarrow> nat \<Rightarrow> state \<Rightarrow> state" where
  "update_zynswitch L digitalRead tsus i s =
     (if MAX_NUM_ZYNSWITCHES L \<le> i then s
      else if \<not> zs_enabled (zynswitches s i) then s
      else (let status = digitalRead (zs_pin (zynswitches s i))
            in if status = zs_status (zynswitches s i) then s
               else snd (commit_zynswitch tsus i status s)))"

text \<open>
  The loop of \<^verbatim>\<open>update_expanded_zynswitches\<close> over \<open>i = 0 .. MAX_NUM_ZYNSWITCHES - 1\<close>:
  \<^verbatim>\<open>continue\<close> goes on with the rest of the indices, \<^verbatim>\<open>return\<close> ends the pass.
\<close>

fun poll_zynswitches :: "(nat \<Rightarrow> u32) \<Rightarrow> u64 \<Rightarrow> nat list \<Rightarrow> state \<Rightarrow> state" where
  "poll_zynswitches digitalRead tsus [] s = s"
| "poll_zynswitches digitalRead tsus (i # rest) s =
     (if \<not> zs_enabled (zynswitches s i) \<or> zs_pin (zynswitches s i) < 100
        then poll_zynswitches digitalRead tsus rest s
      else (let status = digitalRead (zs_pin (zynswitches s i))
            in if status = zs_status (zynswitches s i)
                 then poll_zynswitches digitalRead tsus rest s
               else (case commit_zynswitch tsus i status s of
                       (True, s') \<Rightarrow> s'
                     | (False, s') \<Rightarrow> poll_zynswitches digitalRead tsus rest s')))"

definition update_expanded_zynswitches ::
  "limits \<Rightarrow> (nat \<Rightarrow> u32) \<Rightarrow> u64 \<Rightarrow> state \<Rightarrow> state" where
  "update_expanded_zynswitches L digitalRead tsus s =
     poll_zynswitches digitalRead tsus [0 ..< MAX_NUM_ZYNSWITCHES L] s"

text \<open>
  \<^verbatim>\<open>setup_zynswitch\<close> returns a pointer into the table: \<open>Some i\<close> is \<^verbatim>\<open>zynswitches + i\<close>,
  \<open>None\<close> is \<^verbatim>\<open>NULL\<close>. The calls that configure the hardware (\<^verbatim>\<open>pinMode\<close>,
  \<^verbatim>\<open>pullUpDnControl\<close>, \<^verbatim>\<open>wiringPiISR\<close>) do not touch the tables and are left out.
\<close>

definition setup_zynswitch ::
  "limits \<Rightarrow> (nat \<Rightarrow> u32) \<Rightarrow> u64 \<Rightarrow> nat \<Rightarrow> nat \<Rightarrow> state \<Rightarrow> nat option \<times> state" where
  "setup_zynswitch L digitalRead tsus i pin s =
     (if MAX_NUM_ZYNSWITCHES L \<le> i
        then (None, emit (Stdout ''Maximum number of gpio switches exceded: %d'') s)
      else (let s1 = put_zynswitch i
                       ((zynswitches s i)\<lparr>zs_enabled := True, zs_pin := pin, zs_tsus := 0,
                                           zs_dtus := 0, zs_status := 0\<rparr>) s
            in if 0 < pin \<and> pin < 100
                 then (Some i, update_zynswitch L digitalRead tsus i s1)
               else (Some i, s1)))"

definition get_zynswitch_dtus :: "limits \<Rightarrow> nat \<Rightarrow> state \<Rightarrow> u32 \<times> state" where
  "get_zynswitch_dtus L i s =
     (if MAX_NUM_ZYNSWITCHES L \<le> i then (0, s)
      else (zs_dtus (zynswitches s i),
            put_zynswitch i ((zynswitches s i)\<lparr>zs_dtus := 0\<rparr>) s))"

section \<open>Dispatcher\<close>

definition put_zyncoder :: "nat \<Rightarrow> zyncoder_st \<Rightarrow> state \<Rightarrow> state" where
  "put_zyncoder i zyncoder s = s\<lparr>zyncoders := (zyncoders s)(i := zyncoder)\<rparr>"

text \<open>
  \<^verbatim>\<open>zynmidi_set_control\<close> takes \<^verbatim>\<open>unsigned char\<close> arguments, so the 32-bit \<open>value\<close> is cut
  to its low 8 bits at the call. \<^verbatim>\<open>osc_path[0]\<close> is non-zero exactly when the path is
  not the empty string.
\<close>

definition send_zyncoder :: "limits \<Rightarrow> nat \<Rightarrow> state \<Rightarrow> state" where
  "send_zyncoder L i s0 =
     (let s = emit (Call_send_zyncoder i) s0
      in if MAX_NUM_ZYNCODERS L \<le> i then s
         else (let zyncoder = zyncoders s i
               in if \<not> zc_enabled zyncoder then s
                  else if 0 < zc_midi_ctrl zyncoder then
                    snd (zynmidi_set_control (zc_midi_chan zyncoder) (zc_midi_ctrl zyncoder)
                           (ucast (zc_value zyncoder)) s)
                  else if osc_lo_addr s \<noteq> None \<and> zc_osc_path zyncoder \<noteq> [] then
                    (if 8 \<le> zc_step zyncoder then
                       (if 64 \<le> zc_value zyncoder
                          then emit (Lo_send (zc_osc_path zyncoder) Osc_T) s
                        else emit (Lo_send (zc_osc_path zyncoder) Osc_F) s)
                     else emit (Lo_send (zc_osc_path zyncoder) (Osc_i (zc_value zyncoder))) s)
                  else s))"

section \<open>Rotary encoders\<close>

definition quadrature_up :: "u32 \<Rightarrow> bool" where
  "quadrature_up qsum = (qsum = 13 \<or> qsum = 4 \<or> qsum = 2 \<or> qsum = 11)"

definition quadrature_down :: "u32 \<Rightarrow> bool" where
  "quadrature_down qsum = (qsum = 14 \<or> qsum = 7 \<or> qsum = 1 \<or> qsum = 8)"

text \<open>
  \<^verbatim>\<open>unsigned int dtus=tsus-zyncoder->tsus\<close>: the 64-bit difference cut to 32 bits, read
  unsigned. The average and the step follow; the sum of the five intervals is a 32-bit
  sum and wraps.
\<close>

definition zyncoder_dtus :: "u64 \<Rightarrow> u64 \<Rightarrow> u32" where
  "zyncoder_dtus tsus prev = ucast (tsus - prev)"

definition dtus_avg :: "u32 \<Rightarrow> u32 \<times> u32 \<times> u32 \<times> u32 \<Rightarrow> u32" where
  "dtus_avg dtus ds =
     (case ds of (d0, d1, d2, d3) \<Rightarrow>
        (dtus + d0 + d1 + d2 + d3) div (ZYNCODER_TICKS_PER_RETENT + 1))"

definition dsval_of :: "u32 \<Rightarrow> u32" where
  "dsval_of avg =
     (if avg < 10000 then ZYNCODER_TICKS_PER_RETENT
      else if avg < 30000 then ZYNCODER_TICKS_PER_RETENT div 2
      else 1)"

definition update_zyncoder ::
  "limits \<Rightarrow> (nat \<Rightarrow> u32) \<Rightarrow> u64 \<Rightarrow> nat \<Rightarrow> state \<Rightarrow> state" where
  "update_zyncoder L digitalRead tsus i s =
     (if MAX_NUM_ZYNCODERS L \<le> i then s
      else if \<not> zc_enabled (zyncoders s i) then s
      else
        (let MSB = digitalRead (zc_pin_a (zyncoders s i));
             LSB = digitalRead (zc_pin_b (zyncoders s i));
             encoded = push_bit 1 MSB OR LSB;
             qsum = push_bit 2 (zc_last_encoded (zyncoders s i)) OR encoded;
             up = quadrature_up qsum;
             down = (\<not> up \<and> quadrature_down qsum);
             zyncoder = (zyncoders s i)\<lparr>zc_last_encoded := encoded\<rparr>
         in if zc_step zyncoder = 0 then
              (let dtus = zyncoder_dtus tsus (zc_tsus zyncoder)
               in if dtus < 1000 then put_zyncoder i zyncoder s
                  else
                    (let dsval = dsval_of (dtus_avg dtus (zc_dtus zyncoder));
                         zyncoder = (case zc_dtus zyncoder of (d0, d1, d2, d3) \<Rightarrow>
                                       zyncoder\<lparr>zc_dtus := (d1, d2, d3, dtus)\<rparr>);
                         zyncoder =
                           (if up then
                              (if dsval \<le> zc_max_value zyncoder - zc_subvalue zyncoder
                                 then zyncoder\<lparr>zc_subvalue := zc_subvalue zyncoder + dsval\<rparr>
                               else zyncoder\<lparr>zc_subvalue := zc_max_value zyncoder\<rparr>)
                            else if down then
                              (if dsval \<le> zc_subvalue zyncoder
                                 then zyncoder\<lparr>zc_subvalue := zc_subvalue zyncoder - dsval\<rparr>
                               else zyncoder\<lparr>zc_subvalue := 0\<rparr>)
                            else zyncoder);
                         val :: u32 =
                           (if up then zc_subvalue zyncoder div ZYNCODER_TICKS_PER_RETENT
                            else if down then
                              (zc_subvalue zyncoder + ZYNCODER_TICKS_PER_RETENT - 1)
                                div ZYNCODER_TICKS_PER_RETENT
                            else - 1);
                         zyncoder = zyncoder\<lparr>zc_tsus := tsus\<rparr>
                     in if 0 \<le> sint val \<and> zc_value zyncoder \<noteq> val
                          then send_zyncoder L i (put_zyncoder i (zyncoder\<lparr>zc_value := val\<rparr>) s)
                        else put_zyncoder i zyncoder s))
            else
              (let last_value = zc_value zyncoder;
                   zyncoder = (if zc_max_value zyncoder < zc_value zyncoder
                                 then zyncoder\<lparr>zc_value := zc_max_value zyncoder\<rparr>
                               else zyncoder);
                   zyncoder =
                     (if zc_step zyncoder \<le> zc_max_value zyncoder - zc_value zyncoder \<and> up
                        then zyncoder\<lparr>zc_value := zc_value zyncoder + zc_step zyncoder\<rparr>
                      else if zc_step zyncoder \<le> zc_value zyncoder \<and> down
                        then zyncoder\<lparr>zc_value := zc_value zyncoder - zc_step zyncoder\<rparr>
                      else zyncoder)
               in if last_value \<noteq> zc_value zyncoder
                    then send_zyncoder L i (put_zyncoder i zyncoder s)
                  else put_zyncoder i zyncoder s)))"

text \<open>
  \<^verbatim>\<open>setup_zyncoder\<close> returns a pointer into the table: \<open>Some i\<close> is \<^verbatim>\<open>zyncoders + i\<close>,
  \<open>None\<close> is \<^verbatim>\<open>NULL\<close>. Its guard is \<^verbatim>\<open>i > MAX_NUM_ZYNCODERS\<close>. A \<^verbatim>\<open>NULL\<close> \<^verbatim>\<open>osc_path\<close>
  argument is \<open>None\<close>. The hardware calls of the re-arming branch are left out, as for
  the switches.
\<close>

definition setup_zyncoder ::
  "limits \<Rightarrow> nat \<Rightarrow> nat \<Rightarrow> nat \<Rightarrow> u32 \<Rightarrow> u32 \<Rightarrow> string option \<Rightarrow> u32 \<Rightarrow> u32 \<Rightarrow> u32 \<Rightarrow> state
     \<Rightarrow> nat option \<times> state" where
  "setup_zyncoder L i pin_a pin_b midi_chan midi_ctrl osc_path val max_value step s =
     (if MAX_NUM_ZYNCODERS L < i
        then (None, emit (Stdout ''Maximum number of zyncoders exceded: %d'') s)
      else
        (let midi_chan = (if 15 < midi_chan then 0 else midi_chan);
             midi_ctrl = (if 127 < midi_ctrl then 1 else midi_ctrl);
             val = (if max_value < val then max_value else val);
             zyncoder = (zyncoders s i)
               \<lparr>zc_midi_chan := ucast midi_chan, zc_midi_ctrl := ucast midi_ctrl,
                zc_osc_path := (case osc_path of Some path \<Rightarrow> path | None \<Rightarrow> []),
                zc_step := step\<rparr>;
             zyncoder =
               (if 0 < step
                  then zyncoder\<lparr>zc_value := val, zc_subvalue := 0, zc_max_value := max_value\<rparr>
                else zyncoder\<lparr>zc_value := val,
                              zc_subvalue := ZYNCODER_TICKS_PER_RETENT * val,
                              zc_max_value := ZYNCODER_TICKS_PER_RETENT * max_value\<rparr>);
             zyncoder =
               (if \<not> zc_enabled zyncoder \<or> zc_pin_a zyncoder \<noteq> pin_a
                     \<or> zc_pin_b zyncoder \<noteq> pin_b
                  then zyncoder\<lparr>zc_enabled := True, zc_pin_a := pin_a, zc_pin_b := pin_b,
                                zc_last_encoded := 0, zc_tsus := 0\<rparr>
                else zyncoder)
         in (Some i, put_zyncoder i zyncoder s)))"

definition get_value_zyncoder :: "limits \<Rightarrow> nat \<Rightarrow> state \<Rightarrow> u32" where
  "get_value_zyncoder L i s =
     (if MAX_NUM_ZYNCODERS L \<le> i then 0 else zc_value (zyncoders s i))"

definition set_value_zyncoder :: "limits \<Rightarrow> nat \<Rightarrow> u32 \<Rightarrow> state \<Rightarrow> state" where
  "set_value_zyncoder L i v s =
     (if MAX_NUM_ZYNCODERS L \<le> i then s
      else if \<not> zc_enabled (zyncoders s i) then s
      else
        (let zyncoder = zyncoders s i;
             zyncoder =
               (if zc_step zyncoder = 0 then
                  (let v = v * ZYNCODER_TICKS_PER_RETENT;
                       zyncoder = (if zc_max_value zyncoder < v
                                     then zyncoder\<lparr>zc_subvalue := zc_max_value zyncoder\<rparr>
                                   else zyncoder\<lparr>zc_subvalue := v\<rparr>)
                   in zyncoder\<lparr>zc_value := zc_subvalue zyncoder div ZYNCODER_TICKS_PER_RETENT\<rparr>)
                else (if zc_max_value zyncoder < v
                        then zyncoder\<lparr>zc_value := zc_max_value zyncoder\<rparr>
                      else zyncoder\<lparr>zc_value := v\<rparr>))
         in send_zyncoder L i (put_zyncoder i zyncoder s)))"

section \<open>Transport bridge: the realtime callback\<close>

text \<open>
  What JACK hands to one call of \<^verbatim>\<open>jack_process\<close>: the frame count, whether
  \<^verbatim>\<open>jack_port_get_buffer\<close> gave an output buffer, and the events waiting in the input
  port (\<open>None\<close> when that buffer is \<^verbatim>\<open>NULL\<close>). An event is the list of the \<^verbatim>\<open>ev.size\<close>
  bytes at \<^verbatim>\<open>ev.buffer\<close>.
\<close>

record jack_period =
  nframes :: nat
  output_port_buffer :: bool
  input_port_buffer :: "u8 list list option"

text \<open>
  Two places where the C code can touch memory it does not own end the model with a
  fault: the copy of the drained bytes into \<^verbatim>\<open>jack_midi_data[3*256]\<close> when more than
  768 bytes are queued, and the reads of \<^verbatim>\<open>ev.buffer[1]\<close> and \<^verbatim>\<open>ev.buffer[2]\<close> of a
  Control-Change or Program-Change event shorter than three bytes.
\<close>

datatype fault = Jack_midi_data_overrun | Event_buffer_overread

text \<open>
  The output loop walks the drained bytes in records of three (\<^verbatim>\<open>pos+=3\<close>) and hands
  the first two or three bytes of each record to the output port at time \<open>i\<close>.
  \<^verbatim>\<open>jack_midi_event_reserve\<close> is taken to succeed. The flag is \<open>False\<close> where the loop
  leaves \<^verbatim>\<open>jack_process\<close> with \<open>-1\<close>.
\<close>

fun write_output_events :: "nat \<Rightarrow> nat \<Rightarrow> u8 list \<Rightarrow> state \<Rightarrow> bool \<times> state" where
  "write_output_events nfr i [] s = (True, s)"
| "write_output_events nfr i (b # bs) s =
     (let event_type = drop_bit 4 b;
          event_size = (if event_type = 0xC \<or> event_type = 0xD then 2 else 3 :: nat);
          s1 = s\<lparr>jack_midi_output_port :=
                   jack_midi_output_port s @ [(i, take event_size (b # bs))]\<rparr>
      in if nfr < i
           then (False, emit (Stderr ''Error processing jack midi output events: TOO MANY EVENTS'') s1)
         else write_output_events nfr (i + 1) (drop 2 bs) s1)"

text \<open>The inbound Control-Change echo: the loop over the whole encoder table.\<close>

definition cc_echo :: "u8 \<Rightarrow> u8 \<Rightarrow> u8 \<Rightarrow> nat \<Rightarrow> state \<Rightarrow> state" where
  "cc_echo b0 b1 b2 j s =
     (if zc_enabled (zyncoders s j) \<and> zc_midi_chan (zyncoders s j) = (b0 AND 0xF)
         \<and> zc_midi_ctrl (zyncoders s j) = b1
        then put_zyncoder j
               ((zyncoders s j)\<lparr>zc_value := ucast b2,
                                 zc_subvalue := ucast b2 * ZYNCODER_TICKS_PER_RETENT\<rparr>) s
      else s)"

definition pack_event :: "u8 \<Rightarrow> u8 \<Rightarrow> u8 \<Rightarrow> u32" where
  "pack_event b0 b1 b2 = ucast b0 OR push_bit 8 (ucast b1) OR push_bit 16 (ucast b2)"

fun read_input_events ::
  "limits \<Rightarrow> nat \<Rightarrow> nat \<Rightarrow> u8 list list \<Rightarrow> state \<Rightarrow> fault + int \<times> state" where
  "read_input_events L nfr i [] s = Inr (0, s)"
| "read_input_events L nfr i (ev # evs) s =
     (case ev of
        [] \<Rightarrow> Inl Event_buffer_overread
      | b0 # _ \<Rightarrow>
          (let event_type = drop_bit 4 b0
           in if event_type = 0xB \<or> event_type = 0xC then
                (if length ev < 3 then Inl Event_buffer_overread
                 else
                   (let b1 = ev ! 1; b2 = ev ! 2;
                        s1 = (if event_type = 0xB
                                then fold (cc_echo b0 b1 b2) [0 ..< MAX_NUM_ZYNCODERS L] s
                              else s);
                        s2 = (if event_type = 0xC
                                then snd (write_zynmidi L (pack_event b0 b1 b2) s1)
                              else s1)
                    in if length ev \<le> jack_ringbuffer_write_space (jack_ring_input_buffer s2)
                         then
                           (case jack_ringbuffer_write (jack_ring_input_buffer s2) ev (length ev) of
                              (rb, n) \<Rightarrow>
                                if n \<noteq> length ev
                                  then Inr (- 1, emit (Stderr ''Error writing jack ring input buffer: INCOMPLETE'')
                                                   (s2\<lparr>jack_ring_input_buffer := rb\<rparr>))
                                else if nfr < i
                                  then Inr (- 1, emit (Stderr ''Error processing jack midi input events: TOO MANY EVENTS'')
                                                   (s2\<lparr>jack_ring_input_buffer := rb\<rparr>))
                                else read_input_events L nfr (i + 1) evs
                                       (s2\<lparr>jack_ring_input_buffer := rb\<rparr>))
                       else if nfr < i
                         then Inr (- 1, emit (Stderr ''Error processing jack midi input events: TOO MANY EVENTS'') s2)
                       else read_input_events L nfr (i + 1) evs s2))
              else if nfr < i
                then Inr (- 1, emit (Stderr ''Error processing jack midi input events: TOO MANY EVENTS'') s)
              else read_input_events L nfr (i + 1) evs s))"

definition jack_process :: "limits \<Rightarrow> jack_period \<Rightarrow> state \<Rightarrow> fault + int \<times> state" where
  "jack_process L p s =
     (if \<not> output_port_buffer p
        then Inr (- 1, emit (Stderr ''Error allocating jack output port buffer: %d frames'') s)
      else
        (let s1 = s\<lparr>jack_midi_output_port := []\<rparr>;
             nb = jack_ringbuffer_read_space (jack_ring_output_buffer s1)
         in if 768 < nb then Inl Jack_midi_data_overrun
            else
              (case jack_ringbuffer_read (jack_ring_output_buffer s1) nb of
                 (rb, jack_midi_data, n) \<Rightarrow>
                   if n \<noteq> nb
                     then Inr (- 1, emit (Stderr ''Error reading midi data from jack ring output buffer: %d bytes'')
                                      (s1\<lparr>jack_ring_output_buffer := rb\<rparr>))
                   else
                     (case write_output_events (nframes p) 0 jack_midi_data
                             (s1\<lparr>jack_ring_output_buffer := rb\<rparr>) of
                        (False, s2) \<Rightarrow> Inr (- 1, s2)
                      | (True, s2) \<Rightarrow>
                          (case input_port_buffer p of
                             None \<Rightarrow> Inr (- 1, emit (Stderr ''Error allocating jack input port buffer: %d frames'') s2)
                           | Some evs \<Rightarrow> read_input_events L (nframes p) 0 evs s2)))))"

section \<open>Start-up state\<close>

text \<open>
  The globals of a C program start zeroed, and \<^verbatim>\<open>init_zyncoder\<close> clears the enable flags,
  the interval history and the returned-event ring again. \<^verbatim>\<open>init_zyncoder_osc\<close> sets the
  OSC address when the port is not 0 and \<^verbatim>\<open>init_zyncoder_midi\<close> creates the two byte
  rings; their capacity is what \<^verbatim>\<open>jack_ringbuffer_create\<close> grants.
\<close>

definition zero_zynswitch :: zynswitch_st where
  "zero_zynswitch =
     \<lparr>zs_enabled = False, zs_pin = 0, zs_tsus = 0, zs_dtus = 0, zs_status = 0\<rparr>"

definition zero_zyncoder :: zyncoder_st where
  "zero_zyncoder =
     \<lparr>zc_enabled = False, zc_pin_a = 0, zc_pin_b = 0, zc_midi_chan = 0, zc_midi_ctrl = 0,
      zc_osc_path = [], zc_max_value = 0, zc_step = 0, zc_subvalue = 0, zc_value = 0,
      zc_last_encoded = 0, zc_tsus = 0, zc_dtus = (0, 0, 0, 0)\<rparr>"

definition init_zyncoder :: "string option \<Rightarrow> nat \<Rightarrow> state" where
  "init_zyncoder osc_port capacity =
     \<lparr>zynswitches = (\<lambda>i. zero_zynswitch), zyncoders = (\<lambda>i. zero_zyncoder),
      zynmidi_buffer = (\<lambda>i. 0), zynmidi_buffer_read = 0, zynmidi_buffer_write = 0,
      osc_lo_addr = osc_port,
      jack_ring_output_buffer = \<lparr>rb_data = [], rb_capacity = capacity\<rparr>,
      jack_ring_input_buffer = \<lparr>rb_data = [], rb_capacity = capacity\<rparr>,
      jack_midi_output_port = [], effects = []\<rparr>"

section \<open>Notions used in the statements\<close>

text \<open>The number of dispatcher invocations so far.\<close>

definition dispatcher_calls :: "state \<Rightarrow> nat" where
  "dispatcher_calls s =
     length (filter (\<lambda>e. case e of Call_send_zyncoder _ \<Rightarrow> True | _ \<Rightarrow> False) (effects s))"

text \<open>A configuration for the worked examples: eight switches, four encoders.\<close>

definition example_limits :: limits where
  "example_limits =
     \<lparr>MAX_NUM_ZYNSWITCHES = 8, MAX_NUM_ZYNCODERS = 4, ZYNMIDI_BUFFER_SIZE = 32\<rparr>"

text \<open>
  The condition under which the body of the polling loop reaches its \<^verbatim>\<open>return\<close>: an enabled
  expanded switch whose pin reads 1 against a stored status other than 1, with a computed
  interval below 1000.
\<close>

definition spurious_press :: "(nat \<Rightarrow> u32) \<Rightarrow> u64 \<Rightarrow> zynswitch_st \<Rightarrow> bool" where
  "spurious_press digitalRead tsus zynswitch =
     (zs_enabled zynswitch \<and> 100 \<le> zs_pin zynswitch \<and>
      digitalRead (zs_pin zynswitch) \<noteq> zs_status zynswitch \<and>
      digitalRead (zs_pin zynswitch) = 1 \<and>
      sint (switch_dtus tsus (zs_tsus zynswitch)) < 1000)"

text \<open>
  A run of edges on encoder \<open>i\<close>: each edge is what \<^verbatim>\<open>update_zyncoder\<close> reads from the
  outside, the pin levels and the clock.
\<close>

fun update_zyncoder_seq ::
  "limits \<Rightarrow> nat \<Rightarrow> ((nat \<Rightarrow> u32) \<times> u64) list \<Rightarrow> state \<Rightarrow> state" where
  "update_zyncoder_seq L i [] s = s"
| "update_zyncoder_seq L i ((digitalRead, tsus) # edges) s =
     update_zyncoder_seq L i edges (update_zyncoder L digitalRead tsus i s)"

text \<open>
  An interval of slow rotation: at least 30 ms, and small enough for the 32-bit sum of
  five such intervals not to wrap (\<open>5 * 858993459 < 2^32\<close>).
\<close>

definition slow_interval :: "u32 \<Rightarrow> bool" where
  "slow_interval dtus = (30000 \<le> dtus \<and> dtus \<le> 858993459)"

text \<open>
  A run of valid ``up'' transitions at slow intervals, for an encoder on pins \<open>pin_a\<close>,
  \<open>pin_b\<close> whose last code is \<open>last_encoded\<close> and whose last edge was at \<open>prev\<close>: every
  edge forms an ``up'' entry of the quadrature table with the code before it and comes a
  slow interval after the edge before it.
\<close>

fun slow_up_edges ::
  "nat \<Rightarrow> nat \<Rightarrow> u32 \<Rightarrow> u64 \<Rightarrow> ((nat \<Rightarrow> u32) \<times> u64) list \<Rightarrow> bool" where
  "slow_up_edges pin_a pin_b last_encoded prev [] = True"
| "slow_up_edges pin_a pin_b last_encoded prev ((digitalRead, tsus) # edges) =
     (quadrature_up (push_bit 2 last_encoded OR (push_bit 1 (digitalRead pin_a) OR digitalRead pin_b)) \<and>
      slow_interval (zyncoder_dtus tsus prev) \<and>
      slow_up_edges pin_a pin_b (push_bit 1 (digitalRead pin_a) OR digitalRead pin_b) tsus edges)"

section \<open>The outbound queue is all-or-nothing\<close>

lemma jack_write_midi_event_full:
  "jack_ringbuffer_write_space (jack_ring_output_buffer s) < 3 \<Longrightarrow>
     jack_write_midi_event m s = (- 1, emit (Stderr ''Error writing jack ring output buffer: FULL'') s)"
  by (cases m) (simp add: jack_write_midi_event_def)

lemma jack_write_midi_event_room:
  "3 \<le> jack_ringbuffer_write_space (jack_ring_output_buffer s) \<Longrightarrow>
     jack_write_midi_event (b0, b1, b2) s =
       (0, s\<lparr>jack_ring_output_buffer :=
               (jack_ring_output_buffer s)\<lparr>rb_data := rb_data (jack_ring_output_buffer s) @ [b0, b1, b2]\<rparr>\<rparr>)"
  by (simp add: jack_write_midi_event_def jack_ringbuffer_write_def min_def)

text \<open>
  C7. Enqueuing a 3-byte message with fewer than 3 free bytes reports the overflow
  (\<open>-1\<close>) and leaves the ring as it was; with room, all three bytes are appended, in
  order, and the call reports success. So one more message after the ring has filled up
  changes nothing in it.
\<close>

theorem jack_write_midi_event_all_or_nothing:
  "(jack_ringbuffer_write_space (jack_ring_output_buffer s) < 3 \<longrightarrow>
      fst (jack_write_midi_event (b0, b1, b2) s) = - 1 \<and>
      jack_ring_output_buffer (snd (jack_write_midi_event (b0, b1, b2) s)) = jack_ring_output_buffer s) \<and>
   (3 \<le> jack_ringbuffer_write_space (jack_ring_output_buffer s) \<longrightarrow>
      fst (jack_write_midi_event (b0, b1, b2) s) = 0 \<and>
      rb_data (jack_ring_output_buffer (snd (jack_write_midi_event (b0, b1, b2) s))) =
        rb_data (jack_ring_output_buffer s) @ [b0, b1, b2] \<and>
      rb_capacity (jack_ring_output_buffer (snd (jack_write_midi_event (b0, b1, b2) s))) =
        rb_capacity (jack_ring_output_buffer s))"
  by (simp add: jack_write_midi_event_full jack_write_midi_event_room emit_def)

theorem jack_write_midi_event_all_or_nothing_witness:
  "(let s = snd (jack_write_midi_event (0xB0, 7, 100) (init_zyncoder None 4)) in
     jack_ringbuffer_write_space (jack_ring_output_buffer s) < 3 \<and>
     fst (jack_write_midi_event (0xB1, 8, 9) s) = - 1 \<and>
     rb_data (jack_ring_output_buffer (snd (jack_write_midi_event (0xB1, 8, 9) s))) = [0xB0, 7, 100]) \<and>
   3 \<le> jack_ringbuffer_write_space (jack_ring_output_buffer (init_zyncoder None 4)) \<and>
   fst (jack_write_midi_event (0xB0, 7, 100) (init_zyncoder None 4)) = 0 \<and>
   rb_data (jack_ring_output_buffer (snd (jack_write_midi_event (0xB0, 7, 100) (init_zyncoder None 4)))) = [0xB0, 7, 100]"
proof -
  let ?s0 = "init_zyncoder None 4"
  have room: "3 \<le> jack_ringbuffer_write_space (jack_ring_output_buffer ?s0)"
    by (simp add: init_zyncoder_def jack_ringbuffer_write_space_def)
  have first: "jack_write_midi_event (0xB0, 7, 100) ?s0 =
      (0, ?s0\<lparr>jack_ring_output_buffer := \<lparr>rb_data = [0xB0, 7, 100], rb_capacity = 4\<rparr>\<rparr>)"
    unfolding jack_write_midi_event_room [OF room] by (simp add: init_zyncoder_def)
  have full: "jack_ringbuffer_write_space (jack_ring_output_buffer
                (snd (jack_write_midi_event (0xB0, 7, 100) ?s0))) < 3"
    unfolding first by (simp add: jack_ringbuffer_write_space_def)
  show ?thesis
    using room full
      jack_write_midi_event_all_or_nothing [of ?s0 "0xB0" 7 100]
      jack_write_midi_event_all_or_nothing
        [of "snd (jack_write_midi_event (0xB0, 7, 100) ?s0)" "0xB1" 8 9]
    by (simp add: Let_def first)
qed

section \<open>Facts about the dispatcher\<close>

lemma zyncoders_jack_write_midi_event:
  "zyncoders (snd (jack_write_midi_event m s)) = zyncoders s"
  by (cases m) (simp add: jack_write_midi_event_def jack_ringbuffer_write_def emit_def Let_def)

lemma zyncoders_send_zyncoder: "zyncoders (send_zyncoder L i s) = zyncoders s"
  by (simp add: send_zyncoder_def zynmidi_set_control_def emit_def Let_def
      zyncoders_jack_write_midi_event)

lemma dispatcher_calls_jack_write_midi_event:
  "dispatcher_calls (snd (jack_write_midi_event m s)) = dispatcher_calls s"
  by (cases m)
    (simp add: jack_write_midi_event_def jack_ringbuffer_write_def emit_def Let_def
      dispatcher_calls_def)

lemma dispatcher_calls_send_zyncoder:
  "dispatcher_calls (send_zyncoder L i s) = dispatcher_calls s + 1"
proof -
  have "dispatcher_calls (emit (Call_send_zyncoder i) s) = dispatcher_calls s + 1"
    by (simp add: dispatcher_calls_def emit_def)
  moreover have "dispatcher_calls (emit (Lo_send p a) t) = dispatcher_calls t" for p a t
    by (simp add: dispatcher_calls_def emit_def)
  ultimately show ?thesis
    by (simp add: send_zyncoder_def zynmidi_set_control_def Let_def
        dispatcher_calls_jack_write_midi_event)
qed

lemma dispatcher_calls_put_zyncoder:
  "dispatcher_calls (put_zyncoder i z s) = dispatcher_calls s"
  by (simp add: dispatcher_calls_def put_zyncoder_def)

lemma zyncoders_put_zyncoder: "zyncoders (put_zyncoder i z s) = (zyncoders s)(i := z)"
  by (simp add: put_zyncoder_def)

section \<open>Word arithmetic of the sub-tick scale\<close>

lemma unat_times4:
  fixes v :: u32
  assumes "v < 2 ^ 30"
  shows "unat (v * 4) = unat v * 4"
proof -
  from assms have "unat v < 2 ^ 30" by (simp add: word_less_nat_alt)
  then have "unat v * unat (4 :: u32) < 2 ^ LENGTH(32)" by simp
  then have "unat (v * 4) = unat v * unat (4 :: u32)" by (simp only: unat_mult_lem)
  then show ?thesis by simp
qed

lemma clamp_scaled:
  fixes v m :: u32
  assumes "v < 2 ^ 30"
  shows "(if m < v * 4 then m else v * 4) div 4 = min v (m div 4)"
proof -
  have "unat ((if m < v * 4 then m else v * 4) div 4) = unat (min v (m div 4))"
    using unat_times4 [OF assms]
    by (auto simp add: min_def unat_div word_less_nat_alt word_le_nat_alt)
  then show ?thesis by (simp only: word_unat_eq_iff)
qed

lemma unat_add_small:
  fixes x y :: u32
  assumes "unat x + unat y \<le> 4294967295"
  shows "unat (x + y) = unat x + unat y"
proof -
  have "(4294967295 :: nat) < 2 ^ LENGTH(32)" by simp
  with assms have "unat x + unat y < 2 ^ LENGTH(32)" by (rule le_less_trans)
  then show ?thesis by (simp only: unat_add_lem)
qed

lemma word_add_within:
  fixes sv mx d :: u32
  assumes "sv \<le> mx" and "d \<le> mx - sv"
  shows "sv + d \<le> mx"
proof -
  have sub: "unat (mx - sv) = unat mx - unat sv" using assms(1) by (rule unat_sub)
  from assms(1) have le: "unat sv \<le> unat mx" by (simp add: word_le_nat_alt)
  from assms(2) sub have d: "unat d \<le> unat mx - unat sv" by (simp add: word_le_nat_alt)
  have "unat mx < 2 ^ LENGTH(32)" by (rule unsigned_less)
  then have "unat mx \<le> 4294967295" by simp
  with le d have "unat sv + unat d \<le> 4294967295" by linarith
  then have "unat (sv + d) = unat sv + unat d" by (rule unat_add_small)
  with le d show ?thesis by (simp add: word_le_nat_alt)
qed

lemma word_sub_within:
  fixes sv mx d :: u32
  assumes "sv \<le> mx" and "d \<le> sv"
  shows "sv - d \<le> mx"
proof -
  have "unat (sv - d) = unat sv - unat d" using assms(2) by (rule unat_sub)
  with assms(1) show ?thesis by (simp add: word_le_nat_alt)
qed

lemmas example_simps =
  example_limits_def init_zyncoder_def zero_zyncoder_def zero_zynswitch_def
  setup_zyncoder_def put_zyncoder_def put_zynswitch_def emit_def Let_def
  ZYNCODER_TICKS_PER_RETENT_def

section \<open>Setting an encoder from outside\<close>

text \<open>
  C10. For a disabled encoder \<^verbatim>\<open>set_value_zyncoder\<close> returns at once: the whole state,
  the encoder table, the rings and the record of dispatcher calls and messages included,
  is as before. The confirmation echo of an external set exists for enabled encoders
  only.
\<close>

theorem set_value_zyncoder_disabled:
  "\<not> zc_enabled (zyncoders s i) \<Longrightarrow> set_value_zyncoder L i v s = s"
  by (simp add: set_value_zyncoder_def)

theorem set_value_zyncoder_disabled_witness:
  "(let s = snd (setup_zyncoder example_limits 0 1 2 0 10 None 0 10 0 (init_zyncoder None 1023))
    in \<not> zc_enabled (zyncoders s 1) \<and> set_value_zyncoder example_limits 1 5 s = s)"
proof -
  let ?s = "snd (setup_zyncoder example_limits 0 1 2 0 10 None 0 10 0 (init_zyncoder None 1023))"
  have off: "\<not> zc_enabled (zyncoders ?s 1)" by (simp add: example_simps)
  show ?thesis
    using off set_value_zyncoder_disabled [OF off, of example_limits 5]
    by (simp add: Let_def)
qed

text \<open>
  C3 (amended). For an enabled encoder with a valid index, \<^verbatim>\<open>set_value_zyncoder\<close> followed
  by \<^verbatim>\<open>get_value_zyncoder\<close> returns \<open>v\<close> clamped to the maximum: in stepped mode for
  every \<open>v\<close>, in continuous mode (where the stored bound counts sub-ticks) for every
  \<open>v\<close> below \<open>2^30\<close>, that is whenever \<^verbatim>\<open>v*ZYNCODER_TICKS_PER_RETENT\<close> fits 32 bits.
  The call invokes the dispatcher exactly once, whatever the prior value was.
\<close>

theorem set_then_get_value_zyncoder:
  assumes "i < MAX_NUM_ZYNCODERS L" and "zc_enabled (zyncoders s i)"
    and "zc_step (zyncoders s i) = 0 \<longrightarrow> v < 2 ^ 30"
  shows "get_value_zyncoder L i (set_value_zyncoder L i v s) =
           (if zc_step (zyncoders s i) = 0
              then min v (zc_max_value (zyncoders s i) div ZYNCODER_TICKS_PER_RETENT)
            else min v (zc_max_value (zyncoders s i))) \<and>
         dispatcher_calls (set_value_zyncoder L i v s) = dispatcher_calls s + 1"
proof (cases "zc_step (zyncoders s i) = 0")
  case True
  with assms have v: "v < 2 ^ 30" by simp
  have "(if zc_max_value (zyncoders s i) < v * 4 then zc_max_value (zyncoders s i) else v * 4) div 4
          = min v (zc_max_value (zyncoders s i) div 4)"
    by (rule clamp_scaled [OF v])
  then show ?thesis
    using assms(1,2) True
    by (auto simp add: get_value_zyncoder_def set_value_zyncoder_def Let_def
        zyncoders_send_zyncoder dispatcher_calls_send_zyncoder dispatcher_calls_put_zyncoder
        zyncoders_put_zyncoder ZYNCODER_TICKS_PER_RETENT_def split: if_splits)
next
  case False
  show ?thesis
    using assms(1,2) False
    by (auto simp add: get_value_zyncoder_def set_value_zyncoder_def Let_def
        zyncoders_send_zyncoder dispatcher_calls_send_zyncoder dispatcher_calls_put_zyncoder
        zyncoders_put_zyncoder min_def)
qed


theorem set_then_get_value_zyncoder_witness:
  "(let s = snd (setup_zyncoder example_limits 0 1 2 0 10 None 7 10 0 (init_zyncoder None 1023))
    in 0 < MAX_NUM_ZYNCODERS example_limits \<and> zc_enabled (zyncoders s 0) \<and>
       zc_step (zyncoders s 0) = 0 \<and> (7 :: u32) < 2 ^ 30 \<and>
       zc_value (zyncoders s 0) = 7 \<and>
       get_value_zyncoder example_limits 0 (set_value_zyncoder example_limits 0 7 s) = 7 \<and>
       dispatcher_calls (set_value_zyncoder example_limits 0 7 s) = dispatcher_calls s + 1)"
proof -
  let ?s = "snd (setup_zyncoder example_limits 0 1 2 0 10 None 7 10 0 (init_zyncoder None 1023))"
  have a: "0 < MAX_NUM_ZYNCODERS example_limits" by (simp add: example_limits_def)
  have b: "zc_enabled (zyncoders ?s 0)" by (simp add: example_simps)
  have c: "zc_step (zyncoders ?s 0) = 0" by (simp add: example_simps)
  have d: "zc_step (zyncoders ?s 0) = 0 \<longrightarrow> (7 :: u32) < 2 ^ 30" by simp
  have e: "zc_value (zyncoders ?s 0) = 7" by (simp add: example_simps)
  have f: "zc_max_value (zyncoders ?s 0) = 40" by (simp add: example_simps)
  show ?thesis
    using a b c e f set_then_get_value_zyncoder [OF a b d]
    by (simp add: Let_def ZYNCODER_TICKS_PER_RETENT_def)
qed

text \<open>
  The claim as written fails in continuous mode once the multiplication wraps: with a
  maximum of 10, setting \<open>2^30\<close> reads back 0, not 10.
\<close>

theorem set_then_get_value_zyncoder_counterexample:
  "(let s = snd (setup_zyncoder example_limits 0 1 2 0 10 None 0 10 0 (init_zyncoder None 1023))
    in get_value_zyncoder example_limits 0 (set_value_zyncoder example_limits 0 1073741824 s) = 0
       \<and> min (1073741824 :: u32) 10 = 10)"
  by (simp add: example_simps get_value_zyncoder_def set_value_zyncoder_def
      zyncoders_send_zyncoder)

section \<open>The dispatcher uses one channel\<close>

lemma low_seven_bits:
  fixes v :: u32
  assumes "v \<le> 127"
  shows "v AND 0x7F = v"
proof -
  have "v < 2 ^ 7" using assms by (simp add: word_less_nat_alt word_le_nat_alt)
  then have "v AND mask 7 = v" by (rule less_mask_eq)
  then show ?thesis by (simp add: mask_eq_exp_minus_1)
qed

lemma status_byte_nibbles:
  fixes chan :: u8
  assumes "chan \<le> 15"
  shows "drop_bit 4 (0xB0 + chan) = 0xB \<and> (0xB0 + chan) AND 0xF = chan"
proof -
  have c: "unat chan \<le> 15" using assms by (simp add: word_le_nat_alt)
  have s: "unat (0xB0 + chan) = 176 + unat chan"
    using c by (simp add: unat_word_ariths)
  have "unat (drop_bit 4 (0xB0 + chan)) = 11"
    using c s by (simp add: drop_bit_eq_div unat_div)
  then have hi: "drop_bit 4 (0xB0 + chan) = 0xB"
    by (simp add: word_unat_eq_iff)
  have "(0xB0 + chan) AND mask 4 = take_bit 4 (0xB0 + chan)"
    by (simp add: take_bit_eq_mask)
  moreover have "unat (take_bit 4 (0xB0 + chan)) = unat chan"
  proof -
    have "(176 + unat chan) mod 16 = unat chan" using c by presburger
    then show ?thesis using s by (simp add: take_bit_eq_mod unat_mod)
  qed
  ultimately have "(0xB0 + chan) AND mask 4 = chan"
    by (simp add: word_unat_eq_iff)
  then have lo: "(0xB0 + chan) AND 0xF = chan" by (simp add: mask_eq_exp_minus_1)
  from hi lo show ?thesis ..
qed


text \<open>
  C4 (amended). For an enabled encoder with \<open>midi_ctrl > 0\<close> and at least 3 free bytes
  in the output ring, \<^verbatim>\<open>send_zyncoder\<close> enqueues exactly one message, on the bytes
  \<open>0xB0 + midi_chan\<close> and \<open>midi_ctrl\<close>, and sends no OSC message, whatever the value and
  the OSC path are. The third byte is the low byte of \<open>value\<close>; for a value of at most
  127 that is \<open>value AND 0x7F\<close>. With a channel of at most 15 the first byte has high
  nibble \<open>0xB\<close> and carries the channel. With fewer than 3 free bytes nothing is enqueued,
  the overflow is logged, and still no OSC message is sent: with \<open>midi_ctrl > 0\<close> the
  call never adds an OSC message. With \<open>midi_ctrl = 0\<close>, an OSC address and a non-empty
  path, exactly one OSC message is sent: true or false by \<open>value \<ge> 64\<close> when
  \<open>step \<ge> 8\<close>, the integer \<open>value\<close> otherwise; without address or path nothing is sent.
\<close>

theorem send_zyncoder_one_channel:
  assumes "i < MAX_NUM_ZYNCODERS L" and "zc_enabled (zyncoders s i)"
  shows
    "(0 < zc_midi_ctrl (zyncoders s i) \<and> zc_value (zyncoders s i) \<le> 127 \<and>
      3 \<le> jack_ringbuffer_write_space (jack_ring_output_buffer s) \<longrightarrow>
        send_zyncoder L i s =
          (emit (Call_send_zyncoder i) s)
            \<lparr>jack_ring_output_buffer := (jack_ring_output_buffer s)
               \<lparr>rb_data := rb_data (jack_ring_output_buffer s) @
                   [0xB0 + zc_midi_chan (zyncoders s i), zc_midi_ctrl (zyncoders s i),
                    ucast (zc_value (zyncoders s i) AND 0x7F)]\<rparr>\<rparr>) \<and>
     (0 < zc_midi_ctrl (zyncoders s i) \<and>
      3 \<le> jack_ringbuffer_write_space (jack_ring_output_buffer s) \<longrightarrow>
        send_zyncoder L i s =
          (emit (Call_send_zyncoder i) s)
            \<lparr>jack_ring_output_buffer := (jack_ring_output_buffer s)
               \<lparr>rb_data := rb_data (jack_ring_output_buffer s) @
                   [0xB0 + zc_midi_chan (zyncoders s i), zc_midi_ctrl (zyncoders s i),
                    ucast (zc_value (zyncoders s i))]\<rparr>\<rparr>) \<and>
     (0 < zc_midi_ctrl (zyncoders s i) \<and>
      jack_ringbuffer_write_space (jack_ring_output_buffer s) < 3 \<longrightarrow>
        send_zyncoder L i s =
          emit (Stderr ''Error writing jack ring output buffer: FULL'')
            (emit (Call_send_zyncoder i) s)) \<and>
     (0 < zc_midi_ctrl (zyncoders s i) \<longrightarrow>
        (\<exists>es. effects (send_zyncoder L i s) = effects s @ es \<and>
              (\<forall>path arg. Lo_send path arg \<notin> set es))) \<and>
     (zc_midi_ctrl (zyncoders s i) = 0 \<and> osc_lo_addr s \<noteq> None \<and>
      zc_osc_path (zyncoders s i) \<noteq> [] \<longrightarrow>
        send_zyncoder L i s =
          emit (Lo_send (zc_osc_path (zyncoders s i))
                  (if 8 \<le> zc_step (zyncoders s i)
                     then (if 64 \<le> zc_value (zyncoders s i) then Osc_T else Osc_F)
                   else Osc_i (zc_value (zyncoders s i))))
            (emit (Call_send_zyncoder i) s)) \<and>
     (zc_midi_ctrl (zyncoders s i) = 0 \<and>
      (osc_lo_addr s = None \<or> zc_osc_path (zyncoders s i) = []) \<longrightarrow>
        send_zyncoder L i s = emit (Call_send_zyncoder i) s) \<and>
     (zc_midi_chan (zyncoders s i) \<le> 15 \<longrightarrow>
        drop_bit 4 (0xB0 + zc_midi_chan (zyncoders s i)) = 0xB \<and>
        (0xB0 + zc_midi_chan (zyncoders s i)) AND 0xF = zc_midi_chan (zyncoders s i))"
proof -
  let ?s = "emit (Call_send_zyncoder i) s"
  have same: "zyncoders ?s = zyncoders s" "osc_lo_addr ?s = osc_lo_addr s"
    "jack_ring_output_buffer ?s = jack_ring_output_buffer s"
    by (simp_all add: emit_def)
  have midi: "send_zyncoder L i s =
      snd (jack_write_midi_event (0xB0 + zc_midi_chan (zyncoders s i), zc_midi_ctrl (zyncoders s i),
            ucast (zc_value (zyncoders s i))) ?s)"
    if "0 < zc_midi_ctrl (zyncoders s i)"
    using assms that by (simp add: send_zyncoder_def Let_def same zynmidi_set_control_def)
  have any: "send_zyncoder L i s =
          ?s\<lparr>jack_ring_output_buffer := (jack_ring_output_buffer s)
               \<lparr>rb_data := rb_data (jack_ring_output_buffer s) @
                   [0xB0 + zc_midi_chan (zyncoders s i), zc_midi_ctrl (zyncoders s i),
                    ucast (zc_value (zyncoders s i))]\<rparr>\<rparr>"
    if "0 < zc_midi_ctrl (zyncoders s i)"
      "3 \<le> jack_ringbuffer_write_space (jack_ring_output_buffer s)"
  proof -
    have "3 \<le> jack_ringbuffer_write_space (jack_ring_output_buffer ?s)"
      using that(2) by (simp add: same)
    then show ?thesis
      using midi [OF that(1)] by (simp add: jack_write_midi_event_room same)
  qed
  have room: "send_zyncoder L i s =
          ?s\<lparr>jack_ring_output_buffer := (jack_ring_output_buffer s)
               \<lparr>rb_data := rb_data (jack_ring_output_buffer s) @
                   [0xB0 + zc_midi_chan (zyncoders s i), zc_midi_ctrl (zyncoders s i),
                    ucast (zc_value (zyncoders s i) AND 0x7F)]\<rparr>\<rparr>"
    if "0 < zc_midi_ctrl (zyncoders s i)" "zc_value (zyncoders s i) \<le> 127"
      "3 \<le> jack_ringbuffer_write_space (jack_ring_output_buffer s)"
    using any [OF that(1,3)] low_seven_bits [OF that(2)] by simp
  have full: "send_zyncoder L i s =
          emit (Stderr ''Error writing jack ring output buffer: FULL'') ?s"
    if "0 < zc_midi_ctrl (zyncoders s i)"
      "jack_ringbuffer_write_space (jack_ring_output_buffer s) < 3"
  proof -
    have "jack_ringbuffer_write_space (jack_ring_output_buffer ?s) < 3"
      using that(2) by (simp add: same)
    then show ?thesis
      using midi [OF that(1)] by (simp add: jack_write_midi_event_full)
  qed
  have osc: "send_zyncoder L i s =
          emit (Lo_send (zc_osc_path (zyncoders s i))
                  (if 8 \<le> zc_step (zyncoders s i)
                     then (if 64 \<le> zc_value (zyncoders s i) then Osc_T else Osc_F)
                   else Osc_i (zc_value (zyncoders s i)))) ?s"
    if "zc_midi_ctrl (zyncoders s i) = 0" "osc_lo_addr s \<noteq> None"
      "zc_osc_path (zyncoders s i) \<noteq> []"
    using assms that by (simp add: send_zyncoder_def Let_def same)
  have quiet: "send_zyncoder L i s = ?s"
    if "zc_midi_ctrl (zyncoders s i) = 0"
      "osc_lo_addr s = None \<or> zc_osc_path (zyncoders s i) = []"
    using assms that by (auto simp add: send_zyncoder_def Let_def same)
  have no_osc: "\<exists>es. effects (send_zyncoder L i s) = effects s @ es \<and>
              (\<forall>path arg. Lo_send path arg \<notin> set es)"
    if "0 < zc_midi_ctrl (zyncoders s i)"
  proof (cases "3 \<le> jack_ringbuffer_write_space (jack_ring_output_buffer s)")
    case True
    have "effects (send_zyncoder L i s) = effects s @ [Call_send_zyncoder i]"
      unfolding any [OF that True] by (simp add: emit_def)
    then show ?thesis by simp
  next
    case False
    then have "jack_ringbuffer_write_space (jack_ring_output_buffer s) < 3" by simp
    from full [OF that this]
    have "effects (send_zyncoder L i s) =
            effects s @ [Call_send_zyncoder i,
                         Stderr ''Error writing jack ring output buffer: FULL'']"
      by (simp add: emit_def)
    then show ?thesis by simp
  qed
  show ?thesis
    using room any full no_osc osc quiet status_byte_nibbles [of "zc_midi_chan (zyncoders s i)"]
    by blast
qed


theorem send_zyncoder_one_channel_witness:
  "(let s = snd (setup_zyncoder example_limits 0 1 2 1 10 None 5 127 0
                   (init_zyncoder (Some ''1370'') 1023))
    in 0 < MAX_NUM_ZYNCODERS example_limits \<and> zc_enabled (zyncoders s 0) \<and>
       0 < zc_midi_ctrl (zyncoders s 0) \<and> zc_value (zyncoders s 0) \<le> 127 \<and>
       3 \<le> jack_ringbuffer_write_space (jack_ring_output_buffer s) \<and>
       zc_midi_chan (zyncoders s 0) \<le> 15 \<and>
       rb_data (jack_ring_output_buffer (send_zyncoder example_limits 0 s)) = [0xB1, 10, 5] \<and>
       effects (send_zyncoder example_limits 0 s) = [Call_send_zyncoder 0]) \<and>
   (let s = snd (setup_zyncoder example_limits 0 1 2 1 10 None 5 127 0
                   (init_zyncoder (Some ''1370'') 2))
    in zc_enabled (zyncoders s 0) \<and> 0 < zc_midi_ctrl (zyncoders s 0) \<and>
       jack_ringbuffer_write_space (jack_ring_output_buffer s) < 3 \<and>
       rb_data (jack_ring_output_buffer (send_zyncoder example_limits 0 s)) = [] \<and>
       effects (send_zyncoder example_limits 0 s) =
         [Call_send_zyncoder 0, Stderr ''Error writing jack ring output buffer: FULL'']) \<and>
   (let s = snd (setup_zyncoder example_limits 1 3 4 0 0 (Some ''/vol'') 70 127 8
                   (init_zyncoder (Some ''1370'') 1023))
    in 1 < MAX_NUM_ZYNCODERS example_limits \<and> zc_enabled (zyncoders s 1) \<and>
       zc_midi_ctrl (zyncoders s 1) = 0 \<and> osc_lo_addr s \<noteq> None \<and>
       zc_osc_path (zyncoders s 1) \<noteq> [] \<and>
       rb_data (jack_ring_output_buffer (send_zyncoder example_limits 1 s)) = [] \<and>
       effects (send_zyncoder example_limits 1 s) =
         [Call_send_zyncoder 1, Lo_send ''/vol'' Osc_T]) \<and>
   (let s = snd (setup_zyncoder example_limits 1 3 4 0 0 None 70 127 8
                   (init_zyncoder (Some ''1370'') 1023))
    in zc_enabled (zyncoders s 1) \<and> zc_midi_ctrl (zyncoders s 1) = 0 \<and>
       zc_osc_path (zyncoders s 1) = [] \<and>
       effects (send_zyncoder example_limits 1 s) = [Call_send_zyncoder 1]) \<and>
   (let s = snd (setup_zyncoder example_limits 0 1 2 1 10 (Some ''/vol'') 200 255 1
                   (init_zyncoder (Some ''1370'') 1023))
    in zc_enabled (zyncoders s 0) \<and> 0 < zc_midi_ctrl (zyncoders s 0) \<and>
       zc_value (zyncoders s 0) = 200 \<and> zc_osc_path (zyncoders s 0) = ''/vol'' \<and>
       osc_lo_addr s \<noteq> None \<and>
       3 \<le> jack_ringbuffer_write_space (jack_ring_output_buffer s) \<and>
       rb_data (jack_ring_output_buffer (send_zyncoder example_limits 0 s)) = [0xB1, 10, 200] \<and>
       effects (send_zyncoder example_limits 0 s) = [Call_send_zyncoder 0])"
proof -
  let ?e = "snd (setup_zyncoder example_limits 0 1 2 1 10 (Some ''/vol'') 200 255 1
                   (init_zyncoder (Some ''1370'') 1023))"
  have e: "zc_enabled (zyncoders ?e 0)" "0 < zc_midi_ctrl (zyncoders ?e 0)"
    "3 \<le> jack_ringbuffer_write_space (jack_ring_output_buffer ?e)"
    "zc_value (zyncoders ?e 0) = 200" "zc_osc_path (zyncoders ?e 0) = ''/vol''"
    "osc_lo_addr ?e \<noteq> None"
    by (simp_all add: example_simps jack_ringbuffer_write_space_def)
  let ?a = "snd (setup_zyncoder example_limits 0 1 2 1 10 None 5 127 0
                   (init_zyncoder (Some ''1370'') 1023))"
  let ?b = "snd (setup_zyncoder example_limits 0 1 2 1 10 None 5 127 0
                   (init_zyncoder (Some ''1370'') 2))"
  let ?c = "snd (setup_zyncoder example_limits 1 3 4 0 0 (Some ''/vol'') 70 127 8
                   (init_zyncoder (Some ''1370'') 1023))"
  let ?d = "snd (setup_zyncoder example_limits 1 3 4 0 0 None 70 127 8
                   (init_zyncoder (Some ''1370'') 1023))"
  have i0: "0 < MAX_NUM_ZYNCODERS example_limits" and i1: "1 < MAX_NUM_ZYNCODERS example_limits"
    by (simp_all add: example_limits_def)
  have a: "zc_enabled (zyncoders ?a 0)" "0 < zc_midi_ctrl (zyncoders ?a 0)"
    "zc_value (zyncoders ?a 0) \<le> 127"
    "3 \<le> jack_ringbuffer_write_space (jack_ring_output_buffer ?a)"
    "zc_midi_chan (zyncoders ?a 0) \<le> 15"
    by (simp_all add: example_simps jack_ringbuffer_write_space_def)
  have b: "zc_enabled (zyncoders ?b 0)" "0 < zc_midi_ctrl (zyncoders ?b 0)"
    "jack_ringbuffer_write_space (jack_ring_output_buffer ?b) < 3"
    by (simp_all add: example_simps jack_ringbuffer_write_space_def)
  have c: "zc_enabled (zyncoders ?c 1)" "zc_midi_ctrl (zyncoders ?c 1) = 0"
    "osc_lo_addr ?c \<noteq> None" "zc_osc_path (zyncoders ?c 1) \<noteq> []"
    by (simp_all add: example_simps)
  have d: "zc_enabled (zyncoders ?d 1)" "zc_midi_ctrl (zyncoders ?d 1) = 0"
    "zc_osc_path (zyncoders ?d 1) = []"
    by (simp_all add: example_simps)
  have ea: "send_zyncoder example_limits 0 ?a =
          (emit (Call_send_zyncoder 0) ?a)
            \<lparr>jack_ring_output_buffer := (jack_ring_output_buffer ?a)
               \<lparr>rb_data := rb_data (jack_ring_output_buffer ?a) @
                   [0xB0 + zc_midi_chan (zyncoders ?a 0), zc_midi_ctrl (zyncoders ?a 0),
                    ucast (zc_value (zyncoders ?a 0) AND 0x7F)]\<rparr>\<rparr>"
    using send_zyncoder_one_channel [OF i0 a(1)] a by blast
  have eb: "send_zyncoder example_limits 0 ?b =
          emit (Stderr ''Error writing jack ring output buffer: FULL'')
            (emit (Call_send_zyncoder 0) ?b)"
    using send_zyncoder_one_channel [OF i0 b(1)] b by blast
  have ec: "send_zyncoder example_limits 1 ?c =
          emit (Lo_send (zc_osc_path (zyncoders ?c 1))
                  (if 8 \<le> zc_step (zyncoders ?c 1)
                     then (if 64 \<le> zc_value (zyncoders ?c 1) then Osc_T else Osc_F)
                   else Osc_i (zc_value (zyncoders ?c 1))))
            (emit (Call_send_zyncoder 1) ?c)"
    using send_zyncoder_one_channel [OF i1 c(1)] c by blast
  have ee: "send_zyncoder example_limits 0 ?e =
          (emit (Call_send_zyncoder 0) ?e)
            \<lparr>jack_ring_output_buffer := (jack_ring_output_buffer ?e)
               \<lparr>rb_data := rb_data (jack_ring_output_buffer ?e) @
                   [0xB0 + zc_midi_chan (zyncoders ?e 0), zc_midi_ctrl (zyncoders ?e 0),
                    ucast (zc_value (zyncoders ?e 0))]\<rparr>\<rparr>"
    by (rule mp [OF conjunct1 [OF conjunct2 [OF send_zyncoder_one_channel [OF i0 e(1)]]]
                  conjI [OF e(2) e(3)]])
  have re: "rb_data (jack_ring_output_buffer (send_zyncoder example_limits 0 ?e)) = [0xB1, 10, 200]"
    "effects (send_zyncoder example_limits 0 ?e) = [Call_send_zyncoder 0]"
    unfolding ee by (simp_all add: example_simps)
  have ed: "send_zyncoder example_limits 1 ?d = emit (Call_send_zyncoder 1) ?d"
    using send_zyncoder_one_channel [OF i1 d(1)] d by blast
  have ra: "rb_data (jack_ring_output_buffer (send_zyncoder example_limits 0 ?a)) = [0xB1, 10, 5]"
    "effects (send_zyncoder example_limits 0 ?a) = [Call_send_zyncoder 0]"
    unfolding ea by (simp_all add: example_simps)
  have rb: "rb_data (jack_ring_output_buffer (send_zyncoder example_limits 0 ?b)) = []"
    "effects (send_zyncoder example_limits 0 ?b) =
         [Call_send_zyncoder 0, Stderr ''Error writing jack ring output buffer: FULL'']"
    unfolding eb by (simp_all add: example_simps)
  have rc: "rb_data (jack_ring_output_buffer (send_zyncoder example_limits 1 ?c)) = []"
    "effects (send_zyncoder example_limits 1 ?c) = [Call_send_zyncoder 1, Lo_send ''/vol'' Osc_T]"
    unfolding ec by (simp_all add: example_simps)
  have rd: "effects (send_zyncoder example_limits 1 ?d) = [Call_send_zyncoder 1]"
    unfolding ed by (simp_all add: example_simps)
  show ?thesis
    unfolding Let_def using i0 i1 a b c d e ra rb rc rd re by blast
qed

text \<open>
  The claim as written fails twice. The value reaches \<^verbatim>\<open>zynmidi_set_control\<close> through an
  \<^verbatim>\<open>unsigned char\<close> parameter and is not masked: a value of 200 is sent as the byte 200,
  while \<open>200 AND 0x7F\<close> is 72. And with a full output ring no message is emitted at all.
\<close>

theorem send_zyncoder_one_channel_counterexample:
  "(let s = snd (setup_zyncoder example_limits 0 1 2 1 10 None 200 255 1
                   (init_zyncoder (Some ''1370'') 1023))
    in zc_value (zyncoders s 0) = 200 \<and>
       rb_data (jack_ring_output_buffer (send_zyncoder example_limits 0 s)) = [0xB1, 10, 200] \<and>
       (200 :: u32) AND 0x7F = 72) \<and>
   (let s = snd (setup_zyncoder example_limits 0 1 2 1 10 None 5 127 0
                   (init_zyncoder (Some ''1370'') 2))
    in 0 < zc_midi_ctrl (zyncoders s 0) \<and>
       rb_data (jack_ring_output_buffer (send_zyncoder example_limits 0 s)) = [])"
  by (simp add: example_simps send_zyncoder_def zynmidi_set_control_def
      jack_write_midi_event_def jack_ringbuffer_write_def jack_ringbuffer_write_space_def)

section \<open>Indices outside the tables\<close>

lemma switch_index_out_of_range:
  assumes "MAX_NUM_ZYNSWITCHES L \<le> i"
  shows "update_zynswitch L digitalRead tsus i s = s"
    and "get_zynswitch_dtus L i s = (0, s)"
    and "fst (setup_zynswitch L digitalRead tsus i pin s) = None"
    and "zynswitches (snd (setup_zynswitch L digitalRead tsus i pin s)) = zynswitches s"
  using assms
  by (simp_all add: update_zynswitch_def get_zynswitch_dtus_def setup_zynswitch_def emit_def)

lemma encoder_index_out_of_range:
  assumes "MAX_NUM_ZYNCODERS L \<le> i"
  shows "update_zyncoder L digitalRead tsus i s = s"
    and "get_value_zyncoder L i s = 0"
    and "set_value_zyncoder L i v s = s"
    and "zyncoders (send_zyncoder L i s) = zyncoders s"
  using assms
  by (simp_all add: update_zyncoder_def get_value_zyncoder_def set_value_zyncoder_def
      zyncoders_send_zyncoder)

lemma setup_zyncoder_beyond_bound:
  assumes "MAX_NUM_ZYNCODERS L < i"
  shows "fst (setup_zyncoder L i pin_a pin_b midi_chan midi_ctrl osc_path val max_value step s) = None"
    and "zyncoders (snd (setup_zyncoder L i pin_a pin_b midi_chan midi_ctrl osc_path val
                           max_value step s)) = zyncoders s"
  using assms by (simp_all add: setup_zyncoder_def emit_def)

text \<open>
  C6. The claim does not hold for \<^verbatim>\<open>setup_zyncoder\<close>: its guard is
  \<^verbatim>\<open>i > MAX_NUM_ZYNCODERS\<close>, where \<^verbatim>\<open>setup_zynswitch\<close> and every other operation test
  \<^verbatim>\<open>i >= ...\<close>. Called with the index \<^verbatim>\<open>MAX_NUM_ZYNCODERS\<close> itself it returns a non-null
  pointer, one slot behind the table, and has written an enabled encoder with the given
  step there. The other operations are the no-ops the claim describes (the three lemmas
  above).
\<close>

theorem setup_zyncoder_at_table_bound:
  "fst (setup_zyncoder L (MAX_NUM_ZYNCODERS L) pin_a pin_b midi_chan midi_ctrl osc_path val max_value step s)
     = Some (MAX_NUM_ZYNCODERS L) \<and>
   zc_enabled (zyncoders (snd (setup_zyncoder L (MAX_NUM_ZYNCODERS L) pin_a pin_b midi_chan midi_ctrl
                                 osc_path val max_value step s)) (MAX_NUM_ZYNCODERS L)) \<and>
   zc_step (zyncoders (snd (setup_zyncoder L (MAX_NUM_ZYNCODERS L) pin_a pin_b midi_chan midi_ctrl
                              osc_path val max_value step s)) (MAX_NUM_ZYNCODERS L)) = step"
  by (simp add: setup_zyncoder_def Let_def put_zyncoder_def)

theorem setup_zyncoder_at_table_bound_witness:
  "\<not> zc_enabled (zyncoders (init_zyncoder None 1023) (MAX_NUM_ZYNCODERS example_limits)) \<and>
   fst (setup_zyncoder example_limits (MAX_NUM_ZYNCODERS example_limits) 1 2 0 10 None 0 10 0
          (init_zyncoder None 1023)) = Some 4 \<and>
   zc_enabled (zyncoders (snd (setup_zyncoder example_limits (MAX_NUM_ZYNCODERS example_limits)
                                 1 2 0 10 None 0 10 0 (init_zyncoder None 1023)))
                 (MAX_NUM_ZYNCODERS example_limits))"
proof -
  have a: "\<not> zc_enabled (zyncoders (init_zyncoder None 1023) (MAX_NUM_ZYNCODERS example_limits))"
    by (simp add: init_zyncoder_def zero_zyncoder_def)
  have b: "MAX_NUM_ZYNCODERS example_limits = 4" by (simp add: example_limits_def)
  note r = setup_zyncoder_at_table_bound
    [of example_limits 1 2 0 10 None 0 10 0 "init_zyncoder None 1023"]
  have c: "fst (setup_zyncoder example_limits (MAX_NUM_ZYNCODERS example_limits) 1 2 0 10 None 0 10 0
          (init_zyncoder None 1023)) = Some 4"
    using conjunct1 [OF r] b by (simp only:)
  show ?thesis
    by (intro conjI) (rule a c conjunct1 [OF conjunct2 [OF r]])+
qed

section \<open>The sub-tick bound and the inbound Control-Change echo\<close>

text \<open>
  The bound \<open>subvalue \<le> max_value\<close> of every encoder is kept by \<^verbatim>\<open>set_value_zyncoder\<close> and
  by \<^verbatim>\<open>update_zyncoder\<close>, and \<^verbatim>\<open>setup_zyncoder\<close> establishes it for the encoder it
  configures, in continuous mode as long as \<^verbatim>\<open>ZYNCODER_TICKS_PER_RETENT*max_value\<close> fits 32
  bits.
\<close>

lemma set_value_zyncoder_keeps_bound:
  assumes "zc_subvalue (zyncoders s j) \<le> zc_max_value (zyncoders s j)"
  shows "zc_subvalue (zyncoders (set_value_zyncoder L i v s) j) \<le>
         zc_max_value (zyncoders (set_value_zyncoder L i v s) j)"
  using assms
  by (auto simp add: set_value_zyncoder_def Let_def zyncoders_send_zyncoder zyncoders_put_zyncoder)

lemma update_zyncoder_keeps_bound:
  assumes "zc_subvalue (zyncoders s j) \<le> zc_max_value (zyncoders s j)"
  shows "zc_subvalue (zyncoders (update_zyncoder L digitalRead tsus i s) j) \<le>
         zc_max_value (zyncoders (update_zyncoder L digitalRead tsus i s) j)"
proof -
  let ?e = "zyncoders s i"
  let ?qsum = "push_bit 2 (zc_last_encoded ?e) OR
                 (push_bit 1 (digitalRead (zc_pin_a ?e)) OR digitalRead (zc_pin_b ?e))"
  let ?dtus = "zyncoder_dtus tsus (zc_tsus ?e)"
  obtain d0 d1 d2 d3 where d: "zc_dtus ?e = (d0, d1, d2, d3)"
    by (cases "zc_dtus ?e") auto
  let ?dsval = "dsval_of (dtus_avg ?dtus (d0, d1, d2, d3))"
  consider (out) "MAX_NUM_ZYNCODERS L \<le> i \<or> \<not> zc_enabled ?e"
    | (stepped) "i < MAX_NUM_ZYNCODERS L" "zc_enabled ?e" "zc_step ?e \<noteq> 0"
    | (bounce) "i < MAX_NUM_ZYNCODERS L" "zc_enabled ?e" "zc_step ?e = 0" "?dtus < 1000"
    | (up) "i < MAX_NUM_ZYNCODERS L" "zc_enabled ?e" "zc_step ?e = 0" "\<not> ?dtus < 1000"
        "quadrature_up ?qsum"
    | (down) "i < MAX_NUM_ZYNCODERS L" "zc_enabled ?e" "zc_step ?e = 0" "\<not> ?dtus < 1000"
        "\<not> quadrature_up ?qsum" "quadrature_down ?qsum"
    | (none) "i < MAX_NUM_ZYNCODERS L" "zc_enabled ?e" "zc_step ?e = 0" "\<not> ?dtus < 1000"
        "\<not> quadrature_up ?qsum" "\<not> quadrature_down ?qsum"
    by (cases "i < MAX_NUM_ZYNCODERS L") auto
  then show ?thesis
  proof cases
    case out
    then show ?thesis using assms by (auto simp add: update_zyncoder_def)
  next
    case stepped
    then show ?thesis
      using assms
      by (cases "quadrature_up ?qsum"; cases "quadrature_down ?qsum")
        (auto simp add: update_zyncoder_def Let_def zyncoders_send_zyncoder zyncoders_put_zyncoder)
  next
    case bounce
    then show ?thesis
      using assms
      by (auto simp add: update_zyncoder_def Let_def zyncoders_put_zyncoder)
  next
    case up
    show ?thesis
    proof (cases "j = i")
      case True
      have "zc_subvalue ?e + ?dsval \<le> zc_max_value ?e"
        if "?dsval \<le> zc_max_value ?e - zc_subvalue ?e"
        using assms that unfolding True by (rule word_add_within)
      then show ?thesis
        using up d True
        by (simp add: update_zyncoder_def Let_def zyncoders_send_zyncoder zyncoders_put_zyncoder)
    next
      case False
      then show ?thesis
        using up d assms
        by (simp add: update_zyncoder_def Let_def zyncoders_send_zyncoder zyncoders_put_zyncoder)
    qed
  next
    case down
    show ?thesis
    proof (cases "j = i")
      case True
      have "zc_subvalue ?e - ?dsval \<le> zc_max_value ?e" if "?dsval \<le> zc_subvalue ?e"
        using assms that unfolding True by (rule word_sub_within)
      then show ?thesis
        using down d True
        by (simp add: update_zyncoder_def Let_def zyncoders_send_zyncoder zyncoders_put_zyncoder)
    next
      case False
      then show ?thesis
        using down d assms
        by (simp add: update_zyncoder_def Let_def zyncoders_send_zyncoder zyncoders_put_zyncoder)
    qed
  next
    case none
    then show ?thesis
      using d assms
      by (auto simp add: update_zyncoder_def Let_def zyncoders_send_zyncoder zyncoders_put_zyncoder)
  qed
qed

lemma setup_zyncoder_bound:
  assumes "i \<le> MAX_NUM_ZYNCODERS L" and "0 < step \<or> max_value < 2 ^ 30"
  shows "zc_subvalue (zyncoders (snd (setup_zyncoder L i pin_a pin_b midi_chan midi_ctrl osc_path
                                        val max_value step s)) i) \<le>
         zc_max_value (zyncoders (snd (setup_zyncoder L i pin_a pin_b midi_chan midi_ctrl osc_path
                                         val max_value step s)) i)"
proof (cases "0 < step")
  case True
  with assms(1) show ?thesis
    by (simp add: setup_zyncoder_def Let_def zyncoders_put_zyncoder)
next
  case False
  with assms(2) have m: "max_value < 2 ^ 30" by simp
  let ?v = "if max_value < val then max_value else val"
  have vm: "?v \<le> max_value" by (simp add: not_less)
  then have v: "?v < 2 ^ 30" using m by (rule le_less_trans)
  have "unat (?v * 4) \<le> unat (max_value * 4)"
    using vm unfolding unat_times4 [OF v] unat_times4 [OF m] by (simp add: word_le_nat_alt)
  then have "4 * ?v \<le> 4 * max_value" by (simp add: word_le_nat_alt mult.commute)
  with False assms(1) show ?thesis
    by (simp add: setup_zyncoder_def Let_def zyncoders_put_zyncoder ZYNCODER_TICKS_PER_RETENT_def)
qed

lemma upt_4: "[0 ..< 4] = [0, 1, 2, Suc 2]" by (simp add: upt_rec)

text \<open>
  C1. The echo of an inbound Control-Change in \<^verbatim>\<open>jack_process\<close> stores
  \<^verbatim>\<open>ev.buffer[2]*ZYNCODER_TICKS_PER_RETENT\<close> without the clamp that \<^verbatim>\<open>set_value_zyncoder\<close>
  applies. An encoder set up in continuous mode with maximum 10 (sub-tick bound 40)
  satisfies \<open>subvalue \<le> max_value\<close>; after one period that delivers the message
  \<open>B0 0A 7F\<close> its \<open>subvalue\<close> is 508. \<^verbatim>\<open>set_value_zyncoder\<close> with the same value 127
  leaves it at 40. The other three operations keep the bound (the lemmas above).
\<close>

theorem cc_echo_breaks_bound:
  "(let s = snd (setup_zyncoder example_limits 0 1 2 0 10 None 0 10 0 (init_zyncoder None 1023));
        p = \<lparr>nframes = 256, output_port_buffer = True,
             input_port_buffer = Some [[0xB0, 10, 127]]\<rparr>
    in zc_subvalue (zyncoders s 0) \<le> zc_max_value (zyncoders s 0) \<and>
       (case jack_process example_limits p s of
          Inl f \<Rightarrow> False
        | Inr (rc, s') \<Rightarrow>
            rc = 0 \<and> zc_max_value (zyncoders s' 0) = 40 \<and> zc_subvalue (zyncoders s' 0) = 508 \<and>
            \<not> zc_subvalue (zyncoders s' 0) \<le> zc_max_value (zyncoders s' 0)) \<and>
       zc_subvalue (zyncoders (set_value_zyncoder example_limits 0 127 s) 0) = 40)"
  by (simp add: example_limits_def init_zyncoder_def zero_zyncoder_def zero_zynswitch_def
      setup_zyncoder_def put_zyncoder_def emit_def Let_def ZYNCODER_TICKS_PER_RETENT_def
      jack_process_def jack_ringbuffer_read_space_def jack_ringbuffer_read_def
      jack_ringbuffer_write_space_def jack_ringbuffer_write_def cc_echo_def upt_4
      set_value_zyncoder_def send_zyncoder_def zynmidi_set_control_def jack_write_midi_event_def)

theorem cc_echo_breaks_bound_witness:
  "\<exists>L p s s'. zc_subvalue (zyncoders s 0) \<le> zc_max_value (zyncoders s 0) \<and>
      jack_process L p s = Inr (0, s') \<and>
      \<not> zc_subvalue (zyncoders s' 0) \<le> zc_max_value (zyncoders s' 0)"
proof -
  let ?s = "snd (setup_zyncoder example_limits 0 1 2 0 10 None 0 10 0 (init_zyncoder None 1023))"
  let ?p = "\<lparr>nframes = 256, output_port_buffer = True,
             input_port_buffer = Some [[0xB0, 10, 127 :: u8]]\<rparr>"
  from cc_echo_breaks_bound
  have pre: "zc_subvalue (zyncoders ?s 0) \<le> zc_max_value (zyncoders ?s 0)"
    and post: "case jack_process example_limits ?p ?s of
          Inl f \<Rightarrow> False
        | Inr (rc, s') \<Rightarrow>
            rc = 0 \<and> zc_max_value (zyncoders s' 0) = 40 \<and> zc_subvalue (zyncoders s' 0) = 508 \<and>
            \<not> zc_subvalue (zyncoders s' 0) \<le> zc_max_value (zyncoders s' 0)"
    unfolding Let_def by (rule conjunct1, rule conjunct1 [OF conjunct2])
  from post obtain s' where "jack_process example_limits ?p ?s = Inr (0, s')"
    and "\<not> zc_subvalue (zyncoders s' 0) \<le> zc_max_value (zyncoders s' 0)"
    by (cases "jack_process example_limits ?p ?s") auto
  with pre show ?thesis by blast
qed

section \<open>Switch debouncing\<close>

lemma upt_8: "[0 ..< 8] = [0, 1, 2, 3, 4, 5, 6, 7]" by code_simp

lemmas switch_example_simps =
  example_limits_def init_zyncoder_def zero_zynswitch_def setup_zynswitch_def
  update_zynswitch_def commit_zynswitch_def put_zynswitch_def switch_dtus_def
  update_expanded_zynswitches_def emit_def Let_def upt_8

text \<open>
  C9. In the polling loop the debounce test leaves with \<^verbatim>\<open>return\<close>, where the two tests
  before it in the same loop use \<^verbatim>\<open>continue\<close>: the pass ends at the first switch that
  hits the debounce floor. Two expanded switches (pins 100 and 101) are set up and both
  are pressed when the pass runs 2400 s after start-up, where the 32-bit signed interval
  of a switch that was never released is negative. Switch 0 takes the early return;
  switch 1, enabled and with its pin at 1, keeps status 0. In a pass where only pin 101
  reads 1, switch 1 is sampled and its status becomes 1.
\<close>

theorem poll_return_skips_later_switches:
  "(let s = snd (setup_zynswitch example_limits (\<lambda>pin. 0) 0 1 101
                   (snd (setup_zynswitch example_limits (\<lambda>pin. 0) 0 0 100
                          (init_zyncoder None 1023))));
        s' = update_expanded_zynswitches example_limits (\<lambda>pin. 1) 2400000000 s
    in zs_status (zynswitches s' 0) = 1 \<and>
       zs_enabled (zynswitches s' 1) \<and> zs_pin (zynswitches s' 1) = 101 \<and>
       zs_status (zynswitches s' 1) = 0 \<and>
       zs_status (zynswitches
          (update_expanded_zynswitches example_limits (\<lambda>pin. if pin = 101 then 1 else 0)
             2400000000 s) 1) = 1)"
  by (simp add: switch_example_simps)

theorem poll_return_skips_later_switches_witness:
  "\<exists>L digitalRead tsus s.
      zs_enabled (zynswitches s 1) \<and> 100 \<le> zs_pin (zynswitches s 1) \<and>
      1 < MAX_NUM_ZYNSWITCHES L \<and>
      digitalRead (zs_pin (zynswitches s 1)) = 1 \<and> zs_status (zynswitches s 1) = 0 \<and>
      zs_status (zynswitches (update_expanded_zynswitches L digitalRead tsus s) 1) = 0"
proof -
  let ?s = "snd (setup_zynswitch example_limits (\<lambda>pin. 0) 0 1 101
                   (snd (setup_zynswitch example_limits (\<lambda>pin. 0) 0 0 100
                          (init_zyncoder None 1023))))"
  let ?s' = "update_expanded_zynswitches example_limits (\<lambda>pin. 1) 2400000000 ?s"
  have st: "zynswitches ?s 1 =
      \<lparr>zs_enabled = True, zs_pin = 101, zs_tsus = 0, zs_dtus = 0, zs_status = 0\<rparr>"
    by (simp add: switch_example_simps)
  have a: "zs_enabled (zynswitches ?s 1)" "100 \<le> zs_pin (zynswitches ?s 1)"
    "zs_status (zynswitches ?s 1) = 0"
    unfolding st by simp_all
  have b: "1 < MAX_NUM_ZYNSWITCHES example_limits" by (simp add: example_limits_def)
  from poll_return_skips_later_switches
  have c: "zs_status (zynswitches ?s' 1) = 0"
    unfolding Let_def by (rule conjunct1 [OF conjunct2 [OF conjunct2 [OF conjunct2]]])
  show ?thesis
    apply (rule exI [of _ example_limits])
    apply (rule exI [of _ "\<lambda>pin. 1"])
    apply (rule exI [of _ 2400000000])
    apply (rule exI [of _ ?s])
    using a b c apply simp
    done
qed

lemma small_delta:
  fixes tsus prev :: u64
  assumes "unat (tsus - prev) < 1000"
  shows "sint (switch_dtus tsus prev) < 1000"
proof -
  let ?d = "ucast (tsus - prev) :: u32"
  have "unat ?d = take_bit 32 (unat (tsus - prev))"
    by (simp add: unsigned_ucast_eq)
  also have "\<dots> = unat (tsus - prev)"
  proof (rule take_bit_nat_eq_self)
    have "(1000 :: nat) < 2 ^ 32" by simp
    with assms show "unat (tsus - prev) < 2 ^ 32" by (rule less_trans)
  qed
  finally have u: "unat ?d < 1000" using assms by simp
  have "uint ?d = int (unat ?d)" by (rule uint_nat)
  with u have ui: "uint ?d < 1000" by linarith
  have "sint ?d = signed_take_bit 31 (uint ?d)" by (simp add: sint_uint)
  also have "\<dots> = uint ?d"
  proof (rule signed_take_bit_int_eq_self)
    show "- (2 ^ 31) \<le> uint ?d" by (rule order_trans [of _ 0]) simp_all
    have "(1000 :: int) < 2 ^ 31" by simp
    with ui show "uint ?d < 2 ^ 31" by (rule less_trans)
  qed
  finally show ?thesis using ui by (simp add: switch_dtus_def)
qed


lemma upt_split_at: "i < n \<Longrightarrow> [0 ..< n] = [0 ..< i] @ i # [Suc i ..< n]"
proof -
  assume "i < n"
  then obtain k where n: "n = i + k" and "0 < k"
    by (metis less_imp_add_positive)
  have "[0 ..< i + k] = [0 ..< i] @ [i ..< i + k]" by (rule upt_add_eq_append) simp
  moreover have "[i ..< i + k] = i # [Suc i ..< i + k]"
    using \<open>0 < k\<close> by (simp add: upt_conv_Cons)
  ultimately show ?thesis by (simp add: n)
qed

lemma commit_zynswitch_table:
  "zynswitches (snd (commit_zynswitch tsus i status s)) j =
     (if j = i then zynswitches (snd (commit_zynswitch tsus i status s)) i else zynswitches s j)"
  by (simp add: commit_zynswitch_def put_zynswitch_def Let_def)

lemma commit_zynswitch_returns:
  "fst (commit_zynswitch tsus i status s) \<longleftrightarrow>
     status = 1 \<and> sint (switch_dtus tsus (zs_tsus (zynswitches s i))) < 1000"
  by (simp add: commit_zynswitch_def Let_def)

lemma commit_zynswitch_spurious:
  assumes "sint (switch_dtus tsus (zs_tsus (zynswitches s i))) < 1000"
  shows "commit_zynswitch tsus i 1 s =
           (True, put_zynswitch i ((zynswitches s i)\<lparr>zs_status := 1\<rparr>) s)"
  using assms by (simp add: commit_zynswitch_def Let_def)

lemma poll_zynswitches_reaches:
  assumes "distinct pre" and "i \<notin> set pre"
    and "\<forall>j\<in>set pre. \<not> spurious_press digitalRead tsus (zynswitches s j)"
    and "zs_enabled (zynswitches s i)" and "100 \<le> zs_pin (zynswitches s i)"
    and "zs_status (zynswitches s i) = 0"
    and "digitalRead (zs_pin (zynswitches s i)) = 1"
    and "sint (switch_dtus tsus (zs_tsus (zynswitches s i))) < 1000"
  shows "zynswitches (poll_zynswitches digitalRead tsus (pre @ i # post) s) =
           (zynswitches (poll_zynswitches digitalRead tsus pre s))
             (i := (zynswitches s i)\<lparr>zs_status := 1\<rparr>) \<and>
         zynswitches (poll_zynswitches digitalRead tsus pre s) i = zynswitches s i"
  using assms
proof (induction pre arbitrary: s)
  case Nil
  then show ?case
    by (simp add: commit_zynswitch_spurious put_zynswitch_def)
next
  case (Cons k pre)
  from Cons.prems have ki: "k \<noteq> i" and d: "distinct pre" "k \<notin> set pre" "i \<notin> set pre"
    by auto
  show ?case
  proof (cases "\<not> zs_enabled (zynswitches s k) \<or> zs_pin (zynswitches s k) < 100 \<or>
                digitalRead (zs_pin (zynswitches s k)) = zs_status (zynswitches s k)")
    case True
    then have "poll_zynswitches digitalRead tsus ((k # pre) @ i # post) s =
                 poll_zynswitches digitalRead tsus (pre @ i # post) s"
      and "poll_zynswitches digitalRead tsus (k # pre) s = poll_zynswitches digitalRead tsus pre s"
      by (auto simp add: Let_def)
    moreover have "zynswitches (poll_zynswitches digitalRead tsus (pre @ i # post) s) =
           (zynswitches (poll_zynswitches digitalRead tsus pre s))
             (i := (zynswitches s i)\<lparr>zs_status := 1\<rparr>) \<and>
         zynswitches (poll_zynswitches digitalRead tsus pre s) i = zynswitches s i"
      using Cons.prems d by (intro Cons.IH) auto
    ultimately show ?thesis by simp
  next
    case False
    let ?st = "digitalRead (zs_pin (zynswitches s k))"
    let ?c = "commit_zynswitch tsus k ?st s"
    from False Cons.prems(3) have "\<not> fst ?c"
      by (auto simp add: commit_zynswitch_returns spurious_press_def)
    then obtain s' where c: "?c = (False, s')" by (cases ?c) auto
    have tab: "zynswitches s' j = zynswitches s j" if "j \<noteq> k" for j
      using commit_zynswitch_table [of tsus k ?st s j] that c by simp
    from False c have "poll_zynswitches digitalRead tsus ((k # pre) @ i # post) s =
                 poll_zynswitches digitalRead tsus (pre @ i # post) s'"
      and "poll_zynswitches digitalRead tsus (k # pre) s = poll_zynswitches digitalRead tsus pre s'"
      by (auto simp add: Let_def)
    moreover have "zynswitches (poll_zynswitches digitalRead tsus (pre @ i # post) s') =
           (zynswitches (poll_zynswitches digitalRead tsus pre s'))
             (i := (zynswitches s' i)\<lparr>zs_status := 1\<rparr>) \<and>
         zynswitches (poll_zynswitches digitalRead tsus pre s') i = zynswitches s' i"
    proof (intro Cons.IH)
      show "\<forall>j\<in>set pre. \<not> spurious_press digitalRead tsus (zynswitches s' j)"
        using Cons.prems(3) d(2) tab by (metis list.set_intros(2))
    qed (use Cons.prems d ki tab in auto)
    ultimately show ?thesis using tab [of i] ki by simp
  qed
qed

text \<open>
  C2 (amended). A press edge (pin at 1, stored status 0) whose computed interval is
  below 1000 is recorded but not measured. In \<^verbatim>\<open>update_zynswitch\<close> the switch's \<open>status\<close>
  becomes 1, its duration \<open>dtus\<close> and timestamp \<open>tsus\<close> stay as they were, and no other
  switch changes. In \<^verbatim>\<open>update_expanded_zynswitches\<close> the same holds of the switch itself
  (\<open>status\<close> 1, \<open>dtus\<close> and \<open>tsus\<close> as before) when it is an expanded switch that the pass
  reaches, that is when no switch before it takes the debounce return; the switches
  before it are sampled in the same pass and may change. The computed interval is below
  1000 whenever the true one is (\<open>small_delta\<close>).
\<close>

theorem spurious_press_recorded_not_measured:
  assumes "i < MAX_NUM_ZYNSWITCHES L" and "zs_enabled (zynswitches s i)"
    and "zs_status (zynswitches s i) = 0"
    and "digitalRead (zs_pin (zynswitches s i)) = 1"
    and "sint (switch_dtus tsus (zs_tsus (zynswitches s i))) < 1000"
  shows "zynswitches (update_zynswitch L digitalRead tsus i s) =
           (zynswitches s)(i := (zynswitches s i)\<lparr>zs_status := 1\<rparr>) \<and>
         (100 \<le> zs_pin (zynswitches s i) \<and>
          (\<forall>j<i. \<not> spurious_press digitalRead tsus (zynswitches s j)) \<longrightarrow>
            zynswitches (update_expanded_zynswitches L digitalRead tsus s) i =
              (zynswitches s i)\<lparr>zs_status := 1\<rparr>)"
proof
  show "zynswitches (update_zynswitch L digitalRead tsus i s) =
           (zynswitches s)(i := (zynswitches s i)\<lparr>zs_status := 1\<rparr>)"
    using assms
    by (simp add: update_zynswitch_def commit_zynswitch_spurious put_zynswitch_def)
next
  show "100 \<le> zs_pin (zynswitches s i) \<and>
          (\<forall>j<i. \<not> spurious_press digitalRead tsus (zynswitches s j)) \<longrightarrow>
            zynswitches (update_expanded_zynswitches L digitalRead tsus s) i =
              (zynswitches s i)\<lparr>zs_status := 1\<rparr>"
  proof
    assume h: "100 \<le> zs_pin (zynswitches s i) \<and>
          (\<forall>j<i. \<not> spurious_press digitalRead tsus (zynswitches s j))"
    have split: "[0 ..< MAX_NUM_ZYNSWITCHES L] = [0 ..< i] @ i # [Suc i ..< MAX_NUM_ZYNSWITCHES L]"
      using assms(1) by (rule upt_split_at)
    have "zynswitches (poll_zynswitches digitalRead tsus
                         ([0 ..< i] @ i # [Suc i ..< MAX_NUM_ZYNSWITCHES L]) s) =
           (zynswitches (poll_zynswitches digitalRead tsus [0 ..< i] s))
             (i := (zynswitches s i)\<lparr>zs_status := 1\<rparr>) \<and>
         zynswitches (poll_zynswitches digitalRead tsus [0 ..< i] s) i = zynswitches s i"
      using assms h by (intro poll_zynswitches_reaches) auto
    then show "zynswitches (update_expanded_zynswitches L digitalRead tsus s) i =
              (zynswitches s i)\<lparr>zs_status := 1\<rparr>"
      unfolding update_expanded_zynswitches_def split by simp
  qed
qed

theorem spurious_press_recorded_not_measured_witness:
  "(let s0 = snd (setup_zynswitch example_limits (\<lambda>pin. 0) 0 1 101
                   (snd (setup_zynswitch example_limits (\<lambda>pin. 0) 0 0 100
                          (init_zyncoder None 1023))));
        digitalRead = (\<lambda>pin. if pin = 101 then 1 else 0);
        s = update_expanded_zynswitches example_limits (\<lambda>pin. 0) 20000
              (update_expanded_zynswitches example_limits digitalRead 10000 s0)
    in 1 < MAX_NUM_ZYNSWITCHES example_limits \<and> zs_enabled (zynswitches s 1) \<and>
       zs_status (zynswitches s 1) = 0 \<and> digitalRead (zs_pin (zynswitches s 1)) = 1 \<and>
       zs_tsus (zynswitches s 1) = 20000 \<and>
       sint (switch_dtus 20500 (zs_tsus (zynswitches s 1))) < 1000 \<and>
       100 \<le> zs_pin (zynswitches s 1) \<and>
       \<not> spurious_press digitalRead 20500 (zynswitches s 0) \<and>
       zynswitches (update_zynswitch example_limits digitalRead 20500 1 s) 1 =
         (zynswitches s 1)\<lparr>zs_status := 1\<rparr> \<and>
       zynswitches (update_expanded_zynswitches example_limits digitalRead 20500 s) 1 =
         (zynswitches s 1)\<lparr>zs_status := 1\<rparr>)"
proof -
  let ?rd = "\<lambda>pin :: nat. if pin = 101 then 1 else 0 :: u32"
  let ?s = "update_expanded_zynswitches example_limits (\<lambda>pin. 0) 20000
              (update_expanded_zynswitches example_limits ?rd 10000
                (snd (setup_zynswitch example_limits (\<lambda>pin. 0) 0 1 101
                   (snd (setup_zynswitch example_limits (\<lambda>pin. 0) 0 0 100
                          (init_zyncoder None 1023))))))"
  have a: "1 < MAX_NUM_ZYNSWITCHES example_limits" by (simp add: example_limits_def)
  have st1: "zynswitches ?s 1 =
      \<lparr>zs_enabled = True, zs_pin = 101, zs_tsus = 20000, zs_dtus = 0, zs_status = 0\<rparr>"
    by (simp add: switch_example_simps)
  have st0: "zynswitches ?s 0 =
      \<lparr>zs_enabled = True, zs_pin = 100, zs_tsus = 0, zs_dtus = 0, zs_status = 0\<rparr>"
    by (simp add: switch_example_simps)
  have b: "zs_enabled (zynswitches ?s 1)" unfolding st1 by simp
  have c: "zs_status (zynswitches ?s 1) = 0" unfolding st1 by simp
  have d: "?rd (zs_pin (zynswitches ?s 1)) = 1" unfolding st1 by simp
  have t: "zs_tsus (zynswitches ?s 1) = 20000" unfolding st1 by simp
  have e: "sint (switch_dtus 20500 (zs_tsus (zynswitches ?s 1))) < 1000"
    unfolding t by (simp add: switch_dtus_def)
  have f: "100 \<le> zs_pin (zynswitches ?s 1)" unfolding st1 by simp
  have g: "\<not> spurious_press ?rd 20500 (zynswitches ?s 0)"
    unfolding st0 by (simp add: spurious_press_def)
  have g': "\<forall>j<1. \<not> spurious_press ?rd 20500 (zynswitches ?s j)"
  proof (intro allI impI)
    fix j :: nat assume "j < 1"
    then have j: "j = 0" by simp
    show "\<not> spurious_press ?rd 20500 (zynswitches ?s j)" unfolding j by (rule g)
  qed
  note r = spurious_press_recorded_not_measured
        [where i = 1 and L = example_limits and s = ?s and digitalRead = ?rd and tsus = 20500,
         OF a b c d e]
  have r1: "zynswitches (update_zynswitch example_limits ?rd 20500 1 ?s) 1 =
         (zynswitches ?s 1)\<lparr>zs_status := 1\<rparr>"
    by (rule trans [OF fun_cong [OF conjunct1 [OF r]] fun_upd_same])
  have r2: "zynswitches (update_expanded_zynswitches example_limits ?rd 20500 ?s) 1 =
         (zynswitches ?s 1)\<lparr>zs_status := 1\<rparr>"
    by (rule mp [OF conjunct2 [OF r] conjI [OF f g']])
  show ?thesis
    unfolding Let_def
    by (intro conjI) (rule a b c d t e f g r1 r2)+
qed

text \<open>
  The claim as written fails: both functions store the sampled level before the
  debounce test. A switch is pressed at 10 ms, released at 20 ms and reads 1 again
  500 microseconds later; its status, 0 after the release, is 1 after that edge.
\<close>

theorem spurious_press_sets_status:
  "(let sA = snd (setup_zynswitch example_limits (\<lambda>pin. 0) 0 0 5 (init_zyncoder None 1023));
        sB = update_zynswitch example_limits (\<lambda>pin. 1) 10000 0 sA;
        sC = update_zynswitch example_limits (\<lambda>pin. 0) 20000 0 sB;
        sD = update_zynswitch example_limits (\<lambda>pin. 1) 20500 0 sC
    in zs_enabled (zynswitches sC 0) \<and> zs_status (zynswitches sC 0) = 0 \<and>
       zs_tsus (zynswitches sC 0) = 20000 \<and>
       zs_status (zynswitches sD 0) = 1)"
  by (simp add: switch_example_simps)

section \<open>From the input port to the application\<close>

lemma pack_event_bytes:
  "ucast (pack_event b0 b1 b2) = b0"
  "ucast (drop_bit 8 (pack_event b0 b1 b2)) = b1"
  "ucast (drop_bit 16 (pack_event b0 b1 b2)) = b2"
  "drop_bit 24 (pack_event b0 b1 b2) = 0"
  unfolding pack_event_def
  by (rule bit_word_eqI; auto simp add: bit_simps dest: bit_imp_le_length)+

lemma write_output_events_fits:
  "length bytes \<le> 3 * (Suc nfr - i) \<Longrightarrow>
     \<exists>s'. write_output_events nfr i bytes s = (True, s') \<and>
          zynmidi_buffer s' = zynmidi_buffer s \<and>
          zynmidi_buffer_read s' = zynmidi_buffer_read s \<and>
          zynmidi_buffer_write s' = zynmidi_buffer_write s \<and>
          jack_ring_input_buffer s' = jack_ring_input_buffer s \<and>
          zyncoders s' = zyncoders s"
proof (induction nfr i bytes s rule: write_output_events.induct)
  case (1 nfr i s)
  then show ?case by simp
next
  case (2 nfr i b bs s)
  let ?size = "if drop_bit 4 b = 0xC \<or> drop_bit 4 b = 0xD then 2 else 3 :: nat"
  let ?s1 = "s\<lparr>jack_midi_output_port :=
                   jack_midi_output_port s @ [(i, take ?size (b # bs))]\<rparr>"
  from "2.prems" have i: "\<not> nfr < i" by auto
  from "2.prems" have len: "length (drop 2 bs) \<le> 3 * (Suc nfr - (i + 1))" by auto
  have "\<exists>s'. write_output_events nfr (i + 1) (drop 2 bs) ?s1 = (True, s') \<and>
          zynmidi_buffer s' = zynmidi_buffer ?s1 \<and>
          zynmidi_buffer_read s' = zynmidi_buffer_read ?s1 \<and>
          zynmidi_buffer_write s' = zynmidi_buffer_write ?s1 \<and>
          jack_ring_input_buffer s' = jack_ring_input_buffer ?s1 \<and>
          zyncoders s' = zyncoders ?s1"
    using i len by (intro "2.IH") auto
  then show ?case using i by (simp add: Let_def)
qed

lemma write_zynmidi_empty:
  assumes "2 \<le> ZYNMIDI_BUFFER_SIZE L"
    and "zynmidi_buffer_read s = zynmidi_buffer_write s"
    and "zynmidi_buffer_write s < ZYNMIDI_BUFFER_SIZE L"
  shows "write_zynmidi L ev s =
           (1, s\<lparr>zynmidi_buffer := (zynmidi_buffer s)(zynmidi_buffer_write s := ev),
                  zynmidi_buffer_write :=
                    (if ZYNMIDI_BUFFER_SIZE L \<le> zynmidi_buffer_write s + 1 then 0
                     else zynmidi_buffer_write s + 1)\<rparr>)"
  using assms by (auto simp add: write_zynmidi_def Let_def)

lemma read_input_events_program_change:
  assumes "2 \<le> ZYNMIDI_BUFFER_SIZE L"
    and "zynmidi_buffer_read s = zynmidi_buffer_write s"
    and "zynmidi_buffer_write s < ZYNMIDI_BUFFER_SIZE L"
    and "drop_bit 4 b0 = 0xC"
  shows "\<exists>s'. read_input_events L nfr 0 [[b0, b1, b2]] s = Inr (0, s') \<and>
           zynmidi_buffer s' = (zynmidi_buffer s)(zynmidi_buffer_write s := pack_event b0 b1 b2) \<and>
           zynmidi_buffer_read s' = zynmidi_buffer_read s \<and>
           zynmidi_buffer_write s' =
             (if ZYNMIDI_BUFFER_SIZE L \<le> zynmidi_buffer_write s + 1 then 0
              else zynmidi_buffer_write s + 1)"
  using assms(4)
  by (simp add: Let_def write_zynmidi_empty [OF assms(1,2,3)] jack_ringbuffer_write_def
      split: prod.splits)


text \<open>
  C8. Let the returned-event ring be empty (with room for at least one event) and let
  the period's output phase pass (at most 768 queued bytes, no more queued messages than
  \<open>nframes + 1\<close>). When the input port delivers a single Program-Change event
  \<open>b0 b1 b2\<close> (high nibble of \<open>b0\<close> is \<open>0xC\<close>), \<^verbatim>\<open>jack_process\<close> returns 0 and
  \<^verbatim>\<open>read_zynmidi\<close> then returns the packed event, advances the read index by one
  (wrapping at the buffer size) and leaves the ring empty again. The packed event carries
  \<open>b0\<close> in its lowest byte, \<open>b1\<close> in the next, \<open>b2\<close> in the third, and its top byte is
  zero: it is \<open>status OR (data1 << 8) OR (data2 << 16)\<close>. For the event \<open>C3 05 00\<close>
  this is \<open>0x0005C3\<close>.
\<close>

theorem program_change_reaches_application:
  assumes "2 \<le> ZYNMIDI_BUFFER_SIZE L"
    and "zynmidi_buffer_read s = zynmidi_buffer_write s"
    and "zynmidi_buffer_write s < ZYNMIDI_BUFFER_SIZE L"
    and "output_port_buffer p"
    and "input_port_buffer p = Some [[b0, b1, b2]]"
    and "drop_bit 4 b0 = 0xC"
    and "length (rb_data (jack_ring_output_buffer s)) \<le> 768"
    and "length (rb_data (jack_ring_output_buffer s)) \<le> 3 * (nframes p + 1)"
  shows "\<exists>s'. jack_process L p s = Inr (0, s') \<and>
           fst (read_zynmidi L s') = pack_event b0 b1 b2 \<and>
           zynmidi_buffer_read (snd (read_zynmidi L s')) =
             (if ZYNMIDI_BUFFER_SIZE L \<le> zynmidi_buffer_read s + 1 then 0
              else zynmidi_buffer_read s + 1) \<and>
           fst (read_zynmidi L (snd (read_zynmidi L s'))) = 0 \<and>
           ucast (pack_event b0 b1 b2) = b0 \<and>
           ucast (drop_bit 8 (pack_event b0 b1 b2)) = b1 \<and>
           ucast (drop_bit 16 (pack_event b0 b1 b2)) = b2 \<and>
           drop_bit 24 (pack_event b0 b1 b2) = 0 \<and>
           pack_event 0xC3 0x05 0x00 = 0x0005C3"
proof -
  let ?s1 = "s\<lparr>jack_midi_output_port := []\<rparr>"
  let ?bytes = "rb_data (jack_ring_output_buffer s)"
  let ?s2 = "?s1\<lparr>jack_ring_output_buffer := (jack_ring_output_buffer s)\<lparr>rb_data := []\<rparr>\<rparr>"
  have rd: "jack_ringbuffer_read (jack_ring_output_buffer ?s1)
              (jack_ringbuffer_read_space (jack_ring_output_buffer ?s1)) =
            ((jack_ring_output_buffer s)\<lparr>rb_data := []\<rparr>, ?bytes, length ?bytes)"
    by (simp add: jack_ringbuffer_read_def jack_ringbuffer_read_space_def)
  from assms(8) have "length ?bytes \<le> 3 * (Suc (nframes p) - 0)" by simp
  from write_output_events_fits [OF this, of ?s2]
  obtain s3 where out: "write_output_events (nframes p) 0 ?bytes ?s2 = (True, s3)"
    and s3: "zynmidi_buffer s3 = zynmidi_buffer s" "zynmidi_buffer_read s3 = zynmidi_buffer_read s"
      "zynmidi_buffer_write s3 = zynmidi_buffer_write s"
    by auto
  have e3: "zynmidi_buffer_read s3 = zynmidi_buffer_write s3"
    and l3: "zynmidi_buffer_write s3 < ZYNMIDI_BUFFER_SIZE L"
    using assms(2,3) s3 by simp_all
  from read_input_events_program_change [OF assms(1) e3 l3 assms(6), of "nframes p" b1 b2]
  obtain s' where inp: "read_input_events L (nframes p) 0 [[b0, b1, b2]] s3 = Inr (0, s')"
    and b: "zynmidi_buffer s' = (zynmidi_buffer s3)(zynmidi_buffer_write s3 := pack_event b0 b1 b2)"
    and r: "zynmidi_buffer_read s' = zynmidi_buffer_read s3"
    and w: "zynmidi_buffer_write s' =
             (if ZYNMIDI_BUFFER_SIZE L \<le> zynmidi_buffer_write s3 + 1 then 0
              else zynmidi_buffer_write s3 + 1)"
    by auto
  have run: "jack_process L p s = Inr (0, s')"
    using assms(4,5,7) rd out inp
    by (simp add: jack_process_def Let_def jack_ringbuffer_read_space_def)
  have pk: "pack_event 0xC3 0x05 0x00 = 0x0005C3" by (simp add: pack_event_def)
  have ne: "zynmidi_buffer_read s' \<noteq> zynmidi_buffer_write s'"
    using r w e3 l3 assms(1) by auto
  have got: "fst (read_zynmidi L s') = pack_event b0 b1 b2"
    using ne b r e3 by (simp add: read_zynmidi_def Let_def)
  have adv: "zynmidi_buffer_read (snd (read_zynmidi L s')) =
             (if ZYNMIDI_BUFFER_SIZE L \<le> zynmidi_buffer_read s + 1 then 0
              else zynmidi_buffer_read s + 1)"
    using ne r s3 by (simp add: read_zynmidi_def Let_def)
  have again: "fst (read_zynmidi L (snd (read_zynmidi L s'))) = 0"
    using ne r w e3 by (simp add: read_zynmidi_def Let_def)
  show ?thesis
    using run got adv again pk pack_event_bytes [of b0 b1 b2] by blast
qed

theorem program_change_reaches_application_witness:
  "(let L = example_limits; s = init_zyncoder None 1023;
        p = \<lparr>nframes = 256, output_port_buffer = True,
             input_port_buffer = Some [[0xC3, 0x05, 0x00]]\<rparr>
    in 2 \<le> ZYNMIDI_BUFFER_SIZE L \<and> zynmidi_buffer_read s = zynmidi_buffer_write s \<and>
       zynmidi_buffer_write s < ZYNMIDI_BUFFER_SIZE L \<and> output_port_buffer p \<and>
       input_port_buffer p = Some [[0xC3, 0x05, 0x00]] \<and> drop_bit 4 (0xC3 :: u8) = 0xC \<and>
       length (rb_data (jack_ring_output_buffer s)) \<le> 768 \<and>
       length (rb_data (jack_ring_output_buffer s)) \<le> 3 * (nframes p + 1) \<and>
       (\<exists>s'. jack_process L p s = Inr (0, s') \<and> fst (read_zynmidi L s') = 0x0005C3 \<and>
             zynmidi_buffer_read (snd (read_zynmidi L s')) = 1))"
proof -
  let ?L = example_limits
  let ?s = "init_zyncoder None 1023"
  let ?p = "\<lparr>nframes = 256, output_port_buffer = True,
             input_port_buffer = Some [[0xC3, 0x05, 0x00 :: u8]]\<rparr>"
  have h: "2 \<le> ZYNMIDI_BUFFER_SIZE ?L" "zynmidi_buffer_read ?s = zynmidi_buffer_write ?s"
    "zynmidi_buffer_write ?s < ZYNMIDI_BUFFER_SIZE ?L" "output_port_buffer ?p"
    "input_port_buffer ?p = Some [[0xC3, 0x05, 0x00]]" "drop_bit 4 (0xC3 :: u8) = 0xC"
    "length (rb_data (jack_ring_output_buffer ?s)) \<le> 768"
    "length (rb_data (jack_ring_output_buffer ?s)) \<le> 3 * (nframes ?p + 1)"
    by (simp_all add: example_limits_def init_zyncoder_def)
  have r0: "zynmidi_buffer_read ?s = 0" and sz: "ZYNMIDI_BUFFER_SIZE ?L = 32"
    by (simp_all add: example_limits_def init_zyncoder_def)
  from program_change_reaches_application [OF h]
  obtain s' where "jack_process ?L ?p ?s = Inr (0, s')"
    "fst (read_zynmidi ?L s') = pack_event 0xC3 0x05 0x00"
    "pack_event 0xC3 0x05 0x00 = 0x0005C3"
    "zynmidi_buffer_read (snd (read_zynmidi ?L s')) =
             (if ZYNMIDI_BUFFER_SIZE ?L \<le> zynmidi_buffer_read ?s + 1 then 0
              else zynmidi_buffer_read ?s + 1)"
    by blast
  then have "\<exists>s'. jack_process ?L ?p ?s = Inr (0, s') \<and> fst (read_zynmidi ?L s') = 0x0005C3 \<and>
             zynmidi_buffer_read (snd (read_zynmidi ?L s')) = 1"
    unfolding r0 sz by auto
  with h show ?thesis unfolding Let_def by blast
qed

section \<open>Slow rotation counts single ticks\<close>

lemma slow_interval_unat:
  "slow_interval d \<longleftrightarrow> 30000 \<le> unat d \<and> unat d \<le> 858993459"
  by (simp add: slow_interval_def word_le_nat_alt)

lemma dsval_of_slow:
  assumes "slow_interval dtus" "slow_interval d0" "slow_interval d1"
    "slow_interval d2" "slow_interval d3"
  shows "dsval_of (dtus_avg dtus (d0, d1, d2, d3)) = 1"
proof -
  from assms have b: "30000 \<le> unat dtus" "unat dtus \<le> 858993459"
    "30000 \<le> unat d0" "unat d0 \<le> 858993459" "30000 \<le> unat d1" "unat d1 \<le> 858993459"
    "30000 \<le> unat d2" "unat d2 \<le> 858993459" "30000 \<le> unat d3" "unat d3 \<le> 858993459"
    by (simp_all add: slow_interval_unat)
  have s1: "unat (dtus + d0) = unat dtus + unat d0"
    using b by (intro unat_add_small) linarith
  have s2: "unat (dtus + d0 + d1) = unat dtus + unat d0 + unat d1"
    using b s1 unat_add_small [of "dtus + d0" d1] by linarith
  have s3: "unat (dtus + d0 + d1 + d2) = unat dtus + unat d0 + unat d1 + unat d2"
    using b s2 unat_add_small [of "dtus + d0 + d1" d2] by linarith
  have s4: "unat (dtus + d0 + d1 + d2 + d3) = unat dtus + unat d0 + unat d1 + unat d2 + unat d3"
    using b s3 unat_add_small [of "dtus + d0 + d1 + d2" d3] by linarith
  have "unat (dtus_avg dtus (d0, d1, d2, d3)) =
          (unat dtus + unat d0 + unat d1 + unat d2 + unat d3) div 5"
    by (simp add: dtus_avg_def ZYNCODER_TICKS_PER_RETENT_def unat_div s4)
  moreover have "30000 \<le> (unat dtus + unat d0 + unat d1 + unat d2 + unat d3) div 5"
    using b by linarith
  ultimately have "30000 \<le> unat (dtus_avg dtus (d0, d1, d2, d3))" by simp
  then have "\<not> dtus_avg dtus (d0, d1, d2, d3) < 10000" "\<not> dtus_avg dtus (d0, d1, d2, d3) < 30000"
    by (simp_all add: word_less_nat_alt)
  then show ?thesis by (simp add: dsval_of_def)
qed

lemma sint_nonneg_small:
  fixes w :: u32
  assumes "unat w \<le> 1073741824"
  shows "0 \<le> sint w"
proof -
  have "uint w = int (unat w)" by (rule uint_nat)
  with assms have ui: "uint w \<le> 1073741824" by linarith
  have "sint w = signed_take_bit 31 (uint w)" by (simp add: sint_uint)
  also have "\<dots> = uint w"
  proof (rule signed_take_bit_int_eq_self)
    show "- (2 ^ 31) \<le> uint w" by (rule order_trans [of _ 0]) simp_all
    have "(1073741824 :: int) < 2 ^ 31" by simp
    with ui show "uint w < 2 ^ 31" by (rule le_less_trans)
  qed
  finally show ?thesis by simp
qed

lemma sint_quarter_nonneg:
  fixes w :: u32
  shows "0 \<le> sint (w div 4)"
proof (rule sint_nonneg_small)
  have "unat w < 2 ^ LENGTH(32)" by (rule unsigned_less)
  then have "unat w < 4294967296" by simp
  then have "unat w div 4 \<le> 1073741824" by linarith
  then show "unat (w div 4) \<le> 1073741824" by (simp add: unat_div)
qed

lemma up_step_word:
  fixes sv mx :: u32
  assumes "sv \<le> mx"
  shows "(1 \<le> mx - sv) = (sv < mx)"
    and "sv < mx \<Longrightarrow> unat (sv + 1) = unat sv + 1"
    and "sv < mx \<Longrightarrow> sv + 1 \<le> mx"
proof -
  from assms have le: "unat sv \<le> unat mx" by (simp add: word_le_nat_alt)
  have sub: "unat (mx - sv) = unat mx - unat sv" using assms by (rule unat_sub)
  show "(1 \<le> mx - sv) = (sv < mx)"
    using le sub by (auto simp add: word_le_nat_alt word_less_nat_alt)
  have mxb: "unat mx \<le> 4294967295"
  proof -
    have "unat mx < 2 ^ LENGTH(32)" by (rule unsigned_less)
    then show ?thesis by simp
  qed
  show p1: "unat (sv + 1) = unat sv + 1" if "sv < mx"
  proof -
    from that have "unat sv < unat mx" by (simp add: word_less_nat_alt)
    with mxb have "unat sv + unat (1 :: u32) \<le> 4294967295" by simp
    then have "unat (sv + 1) = unat sv + unat (1 :: u32)" by (rule unat_add_small)
    then show ?thesis by simp
  qed
  show "sv + 1 \<le> mx" if "sv < mx"
    using p1 [OF that] that by (simp add: word_le_nat_alt word_less_nat_alt)
qed


lemma update_zyncoder_slow_up:
  assumes "i < MAX_NUM_ZYNCODERS L" and "zc_enabled (zyncoders s i)"
    and "zc_step (zyncoders s i) = 0"
    and "zc_dtus (zyncoders s i) = (d0, d1, d2, d3)"
    and "slow_interval d0" "slow_interval d1" "slow_interval d2" "slow_interval d3"
    and "quadrature_up (push_bit 2 (zc_last_encoded (zyncoders s i)) OR
           (push_bit 1 (digitalRead (zc_pin_a (zyncoders s i))) OR
            digitalRead (zc_pin_b (zyncoders s i))))"
    and "slow_interval (zyncoder_dtus tsus (zc_tsus (zyncoders s i)))"
    and "zc_subvalue (zyncoders s i) \<le> zc_max_value (zyncoders s i)"
  shows "zyncoders (update_zyncoder L digitalRead tsus i s) i =
           (zyncoders s i)
             \<lparr>zc_last_encoded := push_bit 1 (digitalRead (zc_pin_a (zyncoders s i))) OR
                                  digitalRead (zc_pin_b (zyncoders s i)),
              zc_dtus := (d1, d2, d3, zyncoder_dtus tsus (zc_tsus (zyncoders s i))),
              zc_subvalue := (if zc_subvalue (zyncoders s i) < zc_max_value (zyncoders s i)
                              then zc_subvalue (zyncoders s i) + 1
                              else zc_max_value (zyncoders s i)),
              zc_tsus := tsus,
              zc_value := (if zc_subvalue (zyncoders s i) < zc_max_value (zyncoders s i)
                           then zc_subvalue (zyncoders s i) + 1
                           else zc_max_value (zyncoders s i)) div 4\<rparr>"
proof -
  let ?e = "zyncoders s i"
  let ?dtus = "zyncoder_dtus tsus (zc_tsus ?e)"
  have ds: "dsval_of (dtus_avg ?dtus (d0, d1, d2, d3)) = 1"
    using assms(10,5,6,7,8) by (rule dsval_of_slow)
  have nb: "\<not> ?dtus < 1000"
    using assms(10) by (simp add: slow_interval_unat word_less_nat_alt)
  have st: "(1 \<le> zc_max_value ?e - zc_subvalue ?e) = (zc_subvalue ?e < zc_max_value ?e)"
    using assms(11) by (rule up_step_word(1))
  show ?thesis
    using assms(1,2,3,4,9) ds nb st
    by (simp add: update_zyncoder_def Let_def zyncoders_send_zyncoder zyncoders_put_zyncoder
        sint_quarter_nonneg ZYNCODER_TICKS_PER_RETENT_def)
qed


lemma slow_up_edges_take:
  "slow_up_edges pin_a pin_b le prev edges \<Longrightarrow> slow_up_edges pin_a pin_b le prev (take k edges)"
proof (induction edges arbitrary: k le prev)
  case Nil
  then show ?case by simp
next
  case (Cons e edges)
  then show ?case by (cases k; cases e) auto
qed

lemma update_zyncoder_seq_slow_up:
  assumes "i < MAX_NUM_ZYNCODERS L"
  shows "zc_enabled (zyncoders s i) \<Longrightarrow> zc_step (zyncoders s i) = 0 \<Longrightarrow>
         zc_dtus (zyncoders s i) = (d0, d1, d2, d3) \<Longrightarrow>
         slow_interval d0 \<Longrightarrow> slow_interval d1 \<Longrightarrow> slow_interval d2 \<Longrightarrow> slow_interval d3 \<Longrightarrow>
         slow_up_edges (zc_pin_a (zyncoders s i)) (zc_pin_b (zyncoders s i))
           (zc_last_encoded (zyncoders s i)) (zc_tsus (zyncoders s i)) edges \<Longrightarrow>
         zc_subvalue (zyncoders s i) \<le> zc_max_value (zyncoders s i) \<Longrightarrow>
         unat (zc_subvalue (zyncoders (update_zyncoder_seq L i edges s) i)) =
           min (unat (zc_subvalue (zyncoders s i)) + length edges) (unat (zc_max_value (zyncoders s i))) \<and>
         (edges \<noteq> [] \<longrightarrow>
            zc_value (zyncoders (update_zyncoder_seq L i edges s) i) =
              zc_subvalue (zyncoders (update_zyncoder_seq L i edges s) i) div 4)"
proof (induction edges arbitrary: s d0 d1 d2 d3)
  case Nil
  then show ?case by (simp add: word_le_nat_alt)
next
  case (Cons edge edges)
  obtain digitalRead tsus where edge: "edge = (digitalRead, tsus)" by (cases edge)
  let ?e = "zyncoders s i"
  let ?enc = "push_bit 1 (digitalRead (zc_pin_a ?e)) OR digitalRead (zc_pin_b ?e)"
  let ?dtus = "zyncoder_dtus tsus (zc_tsus ?e)"
  let ?sv = "if zc_subvalue ?e < zc_max_value ?e then zc_subvalue ?e + 1 else zc_max_value ?e"
  let ?s1 = "update_zyncoder L digitalRead tsus i s"
  from Cons.prems(8) edge
  have up: "quadrature_up (push_bit 2 (zc_last_encoded ?e) OR ?enc)"
    and slow: "slow_interval ?dtus"
    and rest: "slow_up_edges (zc_pin_a ?e) (zc_pin_b ?e) ?enc tsus edges"
    by simp_all
  have e1: "zyncoders ?s1 i =
      ?e\<lparr>zc_last_encoded := ?enc, zc_dtus := (d1, d2, d3, ?dtus), zc_subvalue := ?sv,
         zc_tsus := tsus, zc_value := ?sv div 4\<rparr>"
    using assms Cons.prems(1-7) up slow Cons.prems(9) by (rule update_zyncoder_slow_up)
  have sv_le: "?sv \<le> zc_max_value ?e"
    using up_step_word(3) [OF Cons.prems(9)] by simp
  have sv_unat: "unat ?sv = min (unat (zc_subvalue ?e) + 1) (unat (zc_max_value ?e))"
  proof (cases "zc_subvalue ?e < zc_max_value ?e")
    case True
    then show ?thesis
      using up_step_word(2) [OF Cons.prems(9) True] by (simp add: word_less_nat_alt)
  next
    case False
    with Cons.prems(9) have "unat (zc_subvalue ?e) = unat (zc_max_value ?e)"
      by (simp add: word_le_nat_alt word_less_nat_alt)
    with False show ?thesis by simp
  qed
  have ih: "unat (zc_subvalue (zyncoders (update_zyncoder_seq L i edges ?s1) i)) =
           min (unat (zc_subvalue (zyncoders ?s1 i)) + length edges)
               (unat (zc_max_value (zyncoders ?s1 i))) \<and>
         (edges \<noteq> [] \<longrightarrow>
            zc_value (zyncoders (update_zyncoder_seq L i edges ?s1) i) =
              zc_subvalue (zyncoders (update_zyncoder_seq L i edges ?s1) i) div 4)"
  proof (rule Cons.IH [where ?d0.0 = d1 and ?d1.0 = d2 and ?d2.0 = d3 and ?d3.0 = ?dtus])
    show "zc_enabled (zyncoders ?s1 i)" unfolding e1 using Cons.prems(1) by simp
    show "zc_step (zyncoders ?s1 i) = 0" unfolding e1 using Cons.prems(2) by simp
    show "zc_dtus (zyncoders ?s1 i) = (d1, d2, d3, ?dtus)" unfolding e1 by simp
    show "slow_interval d1" "slow_interval d2" "slow_interval d3" "slow_interval ?dtus"
      by (rule Cons.prems slow)+
    show "slow_up_edges (zc_pin_a (zyncoders ?s1 i)) (zc_pin_b (zyncoders ?s1 i))
           (zc_last_encoded (zyncoders ?s1 i)) (zc_tsus (zyncoders ?s1 i)) edges"
      unfolding e1 using rest by simp
    show "zc_subvalue (zyncoders ?s1 i) \<le> zc_max_value (zyncoders ?s1 i)"
      unfolding e1 using sv_le by simp
  qed
  have f1: "zc_subvalue (zyncoders ?s1 i) = ?sv" "zc_max_value (zyncoders ?s1 i) = zc_max_value ?e"
    "zc_value (zyncoders ?s1 i) = ?sv div 4"
    unfolding e1 by simp_all
  have seq: "update_zyncoder_seq L i (edge # edges) s = update_zyncoder_seq L i edges ?s1"
    by (simp add: edge)
  have "unat (zc_subvalue (zyncoders (update_zyncoder_seq L i edges ?s1) i)) =
          min (unat (zc_subvalue ?e) + length (edge # edges)) (unat (zc_max_value ?e))"
    using ih sv_unat unfolding f1 by auto
  moreover have "zc_value (zyncoders (update_zyncoder_seq L i edges ?s1) i) =
              zc_subvalue (zyncoders (update_zyncoder_seq L i edges ?s1) i) div 4"
  proof (cases edges)
    case Nil
    then show ?thesis by (simp add: f1)
  next
    case (Cons a list)
    with ih show ?thesis by simp
  qed
  ultimately show ?case unfolding seq by simp
qed


text \<open>
  C5 (amended). The increment of a tick is chosen from the average of its interval and
  the four intervals recorded before it. So let a continuous-mode encoder start at
  \<open>subvalue = 0\<close> with bound \<open>M\<close> and with its four recorded intervals slow already
  (at least 30 ms each, and small enough for the 32-bit sum not to wrap). Then every one
  of \<open>N\<close> consecutive valid up transitions at slow intervals adds exactly 1 until the
  bound is reached: after the first \<open>k\<close> of them \<open>subvalue\<close> is \<open>min k M\<close>. And \<open>value\<close>
  has grown by at most \<open>ceil (N / 4)\<close>.
\<close>

theorem slow_up_rotation_counts_ticks:
  assumes "i < MAX_NUM_ZYNCODERS L" and "zc_enabled (zyncoders s i)"
    and "zc_step (zyncoders s i) = 0" and "zc_subvalue (zyncoders s i) = 0"
    and "zc_dtus (zyncoders s i) = (d0, d1, d2, d3)"
    and "slow_interval d0" "slow_interval d1" "slow_interval d2" "slow_interval d3"
    and "slow_up_edges (zc_pin_a (zyncoders s i)) (zc_pin_b (zyncoders s i))
           (zc_last_encoded (zyncoders s i)) (zc_tsus (zyncoders s i)) edges"
  shows "(\<forall>k\<le>length edges.
            unat (zc_subvalue (zyncoders (update_zyncoder_seq L i (take k edges) s) i)) =
              min k (unat (zc_max_value (zyncoders s i)))) \<and>
         unat (zc_value (zyncoders (update_zyncoder_seq L i edges s) i)) \<le>
           unat (zc_value (zyncoders s i)) + (length edges + 3) div 4"
proof -
  have le0: "zc_subvalue (zyncoders s i) \<le> zc_max_value (zyncoders s i)"
    using assms(4) by simp
  have run: "unat (zc_subvalue (zyncoders (update_zyncoder_seq L i es s) i)) =
           min (length es) (unat (zc_max_value (zyncoders s i))) \<and>
         (es \<noteq> [] \<longrightarrow>
            zc_value (zyncoders (update_zyncoder_seq L i es s) i) =
              zc_subvalue (zyncoders (update_zyncoder_seq L i es s) i) div 4)"
    if "slow_up_edges (zc_pin_a (zyncoders s i)) (zc_pin_b (zyncoders s i))
           (zc_last_encoded (zyncoders s i)) (zc_tsus (zyncoders s i)) es" for es
    using update_zyncoder_seq_slow_up [OF assms(1,2,3,5,6,7,8,9) that le0] assms(4)
    by simp
  have prefixes: "\<forall>k\<le>length edges.
            unat (zc_subvalue (zyncoders (update_zyncoder_seq L i (take k edges) s) i)) =
              min k (unat (zc_max_value (zyncoders s i)))"
  proof (intro allI impI)
    fix k assume k: "k \<le> length edges"
    from run [OF slow_up_edges_take [OF assms(10), of k]] k
    show "unat (zc_subvalue (zyncoders (update_zyncoder_seq L i (take k edges) s) i)) =
              min k (unat (zc_max_value (zyncoders s i)))"
      by (simp add: min_absorb2)
  qed
  have bound: "unat (zc_value (zyncoders (update_zyncoder_seq L i edges s) i)) \<le>
           unat (zc_value (zyncoders s i)) + (length edges + 3) div 4"
  proof (cases edges)
    case Nil
    then show ?thesis by simp
  next
    case (Cons a list)
    then have ne: "edges \<noteq> []" by simp
    from run [OF assms(10)] ne
    have "unat (zc_value (zyncoders (update_zyncoder_seq L i edges s) i)) =
            min (length edges) (unat (zc_max_value (zyncoders s i))) div 4"
      by (simp add: unat_div)
    also have "\<dots> \<le> (length edges + 3) div 4" by (simp add: min_def) linarith
    finally show ?thesis by simp
  qed
  from prefixes bound show ?thesis ..
qed


lemmas encoder_example_simps =
  example_limits_def init_zyncoder_def zero_zyncoder_def
  setup_zyncoder_def put_zyncoder_def emit_def Let_def ZYNCODER_TICKS_PER_RETENT_def
  update_zyncoder_def quadrature_up_def quadrature_down_def zyncoder_dtus_def dtus_avg_def
  dsval_of_def send_zyncoder_def zynmidi_set_control_def jack_write_midi_event_def
  jack_ringbuffer_write_def jack_ringbuffer_write_space_def set_value_zyncoder_def

theorem slow_up_rotation_counts_ticks_witness:
  "(let up1 = (\<lambda>pin. if pin = 1 then 1 else 0); up2 = (\<lambda>pin. 1);
        up3 = (\<lambda>pin. if pin = 2 then 1 else 0); up4 = (\<lambda>pin. 0);
        s0 = snd (setup_zyncoder example_limits 0 1 2 1 10 None 0 127 0 (init_zyncoder None 1023));
        s = set_value_zyncoder example_limits 0 0
              (update_zyncoder_seq example_limits 0
                 [(up1, 40000), (up2, 80000), (up3, 120000), (up4, 160000)] s0);
        edges = [(up1, 200000), (up2, 240000), (up3, 280000), (up4, 320000), (up1, 360000)]
    in 0 < MAX_NUM_ZYNCODERS example_limits \<and> zc_enabled (zyncoders s 0) \<and>
       zc_step (zyncoders s 0) = 0 \<and> zc_subvalue (zyncoders s 0) = 0 \<and>
       zc_value (zyncoders s 0) = 0 \<and> zc_max_value (zyncoders s 0) = 508 \<and>
       zc_dtus (zyncoders s 0) = (40000, 40000, 40000, 40000) \<and> slow_interval 40000 \<and>
       slow_up_edges (zc_pin_a (zyncoders s 0)) (zc_pin_b (zyncoders s 0))
         (zc_last_encoded (zyncoders s 0)) (zc_tsus (zyncoders s 0)) edges \<and>
       unat (zc_subvalue (zyncoders (update_zyncoder_seq example_limits 0 edges s) 0)) = 5 \<and>
       unat (zc_value (zyncoders (update_zyncoder_seq example_limits 0 edges s) 0)) \<le> 2)"
proof -
  let ?up1 = "\<lambda>pin :: nat. if pin = 1 then 1 else 0 :: u32"
  let ?up2 = "\<lambda>pin :: nat. 1 :: u32"
  let ?up3 = "\<lambda>pin :: nat. if pin = 2 then 1 else 0 :: u32"
  let ?up4 = "\<lambda>pin :: nat. 0 :: u32"
  let ?s0 = "snd (setup_zyncoder example_limits 0 1 2 1 10 None 0 127 0 (init_zyncoder None 1023))"
  let ?s = "set_value_zyncoder example_limits 0 0
              (update_zyncoder_seq example_limits 0
                 [(?up1, 40000), (?up2, 80000), (?up3, 120000), (?up4, 160000)] ?s0)"
  let ?edges = "[(?up1, 200000), (?up2, 240000), (?up3, 280000), (?up4, 320000), (?up1, 360000)]"
  have e: "zyncoders ?s 0 =
      \<lparr>zc_enabled = True, zc_pin_a = 1, zc_pin_b = 2, zc_midi_chan = 1, zc_midi_ctrl = 10,
       zc_osc_path = [], zc_max_value = 508, zc_step = 0, zc_subvalue = 0, zc_value = 0,
       zc_last_encoded = 0, zc_tsus = 160000, zc_dtus = (40000, 40000, 40000, 40000)\<rparr>"
    by (simp add: encoder_example_simps)
  have a: "0 < MAX_NUM_ZYNCODERS example_limits" by (simp add: example_limits_def)
  have h: "zc_enabled (zyncoders ?s 0)" "zc_step (zyncoders ?s 0) = 0"
    "zc_subvalue (zyncoders ?s 0) = 0" "zc_dtus (zyncoders ?s 0) = (40000, 40000, 40000, 40000)"
    unfolding e by simp_all
  have v: "zc_value (zyncoders ?s 0) = 0" "zc_max_value (zyncoders ?s 0) = 508"
    unfolding e by simp_all
  have sl: "slow_interval 40000" by (simp add: slow_interval_def)
  have ed: "slow_up_edges (zc_pin_a (zyncoders ?s 0)) (zc_pin_b (zyncoders ?s 0))
         (zc_last_encoded (zyncoders ?s 0)) (zc_tsus (zyncoders ?s 0)) ?edges"
    unfolding e by (simp add: quadrature_up_def slow_interval_def zyncoder_dtus_def)
  note r = slow_up_rotation_counts_ticks [OF a h sl sl sl sl ed]
  have k5: "5 \<le> length ?edges" by simp
  have tk: "take 5 ?edges = ?edges" by simp
  have m5: "min 5 (unat (508 :: u32)) = 5" by simp
  have r1: "unat (zc_subvalue (zyncoders (update_zyncoder_seq example_limits 0 ?edges ?s) 0)) = 5"
    using mp [OF spec [OF conjunct1 [OF r], of 5] k5] unfolding tk v m5 .
  have b2: "unat (0 :: u32) + (length ?edges + 3) div 4 = 2" by simp
  have r2: "unat (zc_value (zyncoders (update_zyncoder_seq example_limits 0 ?edges ?s) 0)) \<le> 2"
    using conjunct2 [OF r] unfolding v b2 .
  show ?thesis
    unfolding Let_def
    by (intro conjI) (rule a h v sl ed r1 r2)+
qed

text \<open>
  The claim as written fails for an encoder that has just been set up: its recorded
  intervals are 0, so the averages of the first ticks are short. Three valid up
  transitions 40 ms apart add 4, 2 and 2: \<open>subvalue\<close> is 8, not 3, and \<open>value\<close> is 2,
  above \<open>ceil (3 / 4) = 1\<close>.
\<close>

theorem slow_up_rotation_counts_ticks_counterexample:
  "(let s = snd (setup_zyncoder example_limits 0 1 2 1 10 None 0 127 0 (init_zyncoder None 1023));
        edges = [(\<lambda>pin. if pin = 1 then 1 else 0, 40000), (\<lambda>pin. 1, 80000),
                 (\<lambda>pin. if pin = 2 then 1 else 0, 120000)];
        s' = update_zyncoder_seq example_limits 0 edges s
    in zc_step (zyncoders s 0) = 0 \<and> zc_subvalue (zyncoders s 0) = 0 \<and>
       zc_value (zyncoders s 0) = 0 \<and> zc_max_value (zyncoders s 0) = 508 \<and>
       slow_up_edges (zc_pin_a (zyncoders s 0)) (zc_pin_b (zyncoders s 0))
         (zc_last_encoded (zyncoders s 0)) (zc_tsus (zyncoders s 0)) edges \<and>
       zc_subvalue (zyncoders s' 0) = 8 \<and> zc_value (zyncoders s' 0) = 2)"
  by (simp add: encoder_example_simps slow_interval_def)

end
